(* ===== verification/Prelude.thy ===== *)
theory Prelude
  imports Main "HOL-Library.Word" "HOL-Library.Signed_Division" "HOL-Library.Char_ord"
    "HOL-Library.List_Lexorder" "HOL-Library.Product_Lexorder"
begin

text \<open>
  Shared vocabulary of the development: the Go scalar types the sources use, the
  sequencing of Go's \<^verbatim>\<open>if err := f(); err != nil { return err }\<close>, the SQL idioms of
  \<^verbatim>\<open>UPDATE ... WHERE\<close> and \<^verbatim>\<open>ORDER BY ... LIMIT\<close> on a table kept as a list of rows,
  and the generic list, word and string facts the component theories rest on.
\<close>

named_theorems go_defs \<open>definitions unfolded to evaluate or split a validation function\<close>
named_theorems frame_simps \<open>which columns an update of a row leaves alone\<close>
named_theorems sql_simps \<open>facts on selecting, updating and ordering rows\<close>

section \<open>Go scalars\<close>

text \<open>
  A Go \<^verbatim>\<open>string\<close> is a sequence of bytes, modelled by \<^typ>\<open>string\<close> (an Isabelle
  character is one byte); a \<^verbatim>\<open>[]byte\<close> is a list of 8-bit words. A \<^verbatim>\<open>time.Duration\<close> is
  an int64 number of nanoseconds; arithmetic that could leave that range is wrapped
  explicitly with \<open>int64\<close>.
\<close>

type_synonym byte = "8 word"
type_synonym bytes = "byte list"
type_synonym duration = int

definition int64 :: "int \<Rightarrow> int" where
  "int64 x = signed_take_bit 63 x"

lemma int64_id: "- (2 ^ 63) \<le> x \<Longrightarrow> x < 2 ^ 63 \<Longrightarrow> int64 x = x"
  by (simp add: int64_def signed_take_bit_int_eq_self)

definition byte_of_char :: "char \<Rightarrow> byte" where
  "byte_of_char c = word_of_nat (of_char c)"

definition bytes_of_string :: "string \<Rightarrow> bytes" where
  "bytes_of_string s = map byte_of_char s"

lemma length_bytes_of_string [simp]: "length (bytes_of_string s) = length s"
  by (simp add: bytes_of_string_def)

lemma of_char_less_256: "(of_char c :: nat) < 256"
  by (metis of_char_mod_256 mod_less_divisor zero_less_numeral)

lemma unat_byte_of_char [simp]: "unat (byte_of_char c) = of_char c"
  using of_char_less_256 [of c] by (simp add: byte_of_char_def unat_of_nat)

lemma byte_of_char_inject: "byte_of_char c = byte_of_char d \<longleftrightarrow> c = d"
  by (metis unat_byte_of_char of_char_eq_iff)

lemma bytes_of_string_inject [simp]: "bytes_of_string s = bytes_of_string t \<longleftrightarrow> s = t"
proof -
  have "inj byte_of_char" by (simp add: inj_def byte_of_char_inject)
  then show ?thesis by (simp add: bytes_of_string_def inj_map_eq_map)
qed

section \<open>Sequencing and SQL idioms\<close>

text \<open>
  \<open>or_else e k\<close> is \<^verbatim>\<open>if err := e; err != nil { return err }; k\<close> on errors as
  options: \<^const>\<open>None\<close> is Go's nil.
\<close>

definition or_else :: "'e option \<Rightarrow> 'e option \<Rightarrow> 'e option" where
  "or_else e k = (case e of Some x \<Rightarrow> Some x | None \<Rightarrow> k)"

lemma or_else_None_iff [simp]: "or_else e k = None \<longleftrightarrow> e = None \<and> k = None"
  by (simp add: or_else_def split: option.splits)

lemma or_else_simps [simp]: "or_else None k = k" "or_else (Some x) k = Some x"
  by (simp_all add: or_else_def)

lemma or_else_Some_iff:
  "or_else e k = Some x \<longleftrightarrow> e = Some x \<or> (e = None \<and> k = Some x)"
  by (auto simp: or_else_def split: option.splits)

lemma if_Some_None_iff [simp]:
  "(if b then Some x else None) = None \<longleftrightarrow> \<not> b" "(if b then Some x else k) = None \<longleftrightarrow> \<not> b \<and> k = None"
  by auto

text \<open>
  A table is a list of rows. \<open>update_where p f\<close> is \<^verbatim>\<open>UPDATE ... SET f WHERE p\<close>,
  every row of the snapshot tested once; \<open>top_by key n\<close> is
  \<^verbatim>\<open>ORDER BY key LIMIT n\<close>.
\<close>

definition update_where :: "('r \<Rightarrow> bool) \<Rightarrow> ('r \<Rightarrow> 'r) \<Rightarrow> 'r list \<Rightarrow> 'r list" where
  "update_where p f rs = map (\<lambda>r. if p r then f r else r) rs"

definition top_by :: "('r \<Rightarrow> 'k::linorder) \<Rightarrow> nat \<Rightarrow> 'r list \<Rightarrow> 'r list" where
  "top_by key n rs = take n (sort_key key rs)"

lemma length_update_where [simp]: "length (update_where p f rs) = length rs"
  by (simp add: update_where_def)

lemma update_where_none [sql_simps]: "(\<And>r. r \<in> set rs \<Longrightarrow> \<not> p r) \<Longrightarrow> update_where p f rs = rs"
  by (simp add: update_where_def map_idI)

lemma in_update_where:
  "r' \<in> set (update_where p f rs) \<longleftrightarrow> (\<exists>r \<in> set rs. r' = (if p r then f r else r))"
  by (auto simp: update_where_def)

lemma map_update_where [sql_simps]:
  "(\<And>r. r \<in> set rs \<Longrightarrow> p r \<Longrightarrow> g (f r) = g r) \<Longrightarrow> map g (update_where p f rs) = map g rs"
  by (simp add: update_where_def)

lemma distinct_singleton: "distinct xs \<Longrightarrow> set xs = {x} \<Longrightarrow> xs = [x]"
proof (cases xs)
  case (Cons a ys)
  moreover assume "distinct xs" "set xs = {x}"
  ultimately show ?thesis by (cases ys) auto
qed simp

lemma top_by_subset: "set (top_by key n rs) \<subseteq> set rs"
  by (metis set_sort set_take_subset top_by_def)

lemma length_top_by: "length (top_by key n rs) \<le> n"
  by (simp add: top_by_def)

lemma top_by_eq_Nil [simp]: "top_by key (Suc n) rs = [] \<longleftrightarrow> rs = []"
  by (metis length_0_conv length_sort take_eq_Nil nat.simps(3) top_by_def)

lemma top_by_1_least:
  assumes "top_by key (Suc 0) rs = [r]"
  shows "r \<in> set rs" "\<And>s. s \<in> set rs \<Longrightarrow> key r \<le> key s"
proof -
  from assms obtain ys where s: "sort_key key rs = r # ys"
    by (cases "sort_key key rs") (auto simp: top_by_def)
  then show "r \<in> set rs" by (metis list.set_intros(1) set_sort)
  have "sorted (map key (r # ys))" using s by (metis sorted_sort_key)
  moreover fix s assume "s \<in> set rs"
  then have "s \<in> set (r # ys)" using s by (metis set_sort)
  ultimately show "key r \<le> key s" by auto
qed

lemma top_by_least:
  assumes "r \<in> set (top_by key n rs)" "x \<in> set rs" "x \<notin> set (top_by key n rs)"
  shows "key r \<le> key x"
proof -
  let ?s = "sort_key key rs"
  have "x \<in> set (drop n ?s)"
    using assms(2,3) by (metis Un_iff append_take_drop_id set_append set_sort top_by_def)
  moreover have "sorted (map key (take n ?s @ drop n ?s))" by simp
  ultimately show ?thesis
    using assms(1) unfolding map_append sorted_append top_by_def by auto
qed

end
