(* ===== verification/GoTime.thy ===== *)
theory GoTime
  imports Prelude
begin

text \<open>
  Go's \<^verbatim>\<open>time.Time\<close> as far as \<^verbatim>\<open>pkg/jobs\<close> observes it (\<^verbatim>\<open>IsZero\<close>, \<^verbatim>\<open>Location\<close>,
  \<^verbatim>\<open>Unix\<close>, \<^verbatim>\<open>Nanosecond\<close>, \<^verbatim>\<open>Before\<close>, \<^verbatim>\<open>After\<close>, \<^verbatim>\<open>UTC\<close>, \<^verbatim>\<open>time.Date\<close>), the
  predicate \<^verbatim>\<open>isPostgreSQLTimestamp\<close> of \<^verbatim>\<open>values.go\<close>, and the correspondence with
  the \<^verbatim>\<open>timestamptz\<close> column type: a whole number of microseconds, kept here relative to
  the Unix epoch. The two round-trip lemmas show that the predicate admits exactly the
  instants a \<^verbatim>\<open>timestamptz\<close> column returns unchanged.
\<close>

section \<open>Instants\<close>

text \<open>
  \<open>unix_sec\<close> and \<open>nanos\<close> are what \<^verbatim>\<open>Unix()\<close> and \<^verbatim>\<open>Nanosecond()\<close> return;
  \<open>in_utc\<close> says whether \<^verbatim>\<open>Location() == time.UTC\<close>. Every \<^verbatim>\<open>time.Time\<close> has its
  nanoseconds below one second (\<open>time_ok\<close>).
\<close>

record go_time =
  unix_sec :: int
  nanos :: nat
  in_utc :: bool

definition time_ok :: "go_time \<Rightarrow> bool" where
  "time_ok t \<longleftrightarrow> nanos t < 1000000000"

definition zero_time :: go_time where
  "zero_time = \<lparr>unix_sec = - 62135596800, nanos = 0, in_utc = True\<rparr>"

definition IsZero :: "go_time \<Rightarrow> bool" where
  "IsZero t \<longleftrightarrow> unix_sec t = - 62135596800 \<and> nanos t = 0"

definition Before :: "go_time \<Rightarrow> go_time \<Rightarrow> bool" where
  "Before t u \<longleftrightarrow> unix_sec t < unix_sec u \<or> (unix_sec t = unix_sec u \<and> nanos t < nanos u)"

definition After :: "go_time \<Rightarrow> go_time \<Rightarrow> bool" where
  "After t u \<longleftrightarrow> Before u t"

text \<open>
  \<^verbatim>\<open>time.Date\<close> on fields already in range, in UTC: the day number in the proleptic
  Gregorian calendar (years counted from 1 March), then the time of day.
\<close>

definition days_from_civil :: "int \<Rightarrow> int \<Rightarrow> int \<Rightarrow> int" where
  "days_from_civil y m d =
     (let y' = (if m \<le> 2 then y - 1 else y);
          era = y' div 400;
          yoe = y' - era * 400;
          doy = (153 * (if m > 2 then m - 3 else m + 9) + 2) div 5 + d - 1;
          doe = yoe * 365 + yoe div 4 - yoe div 100 + doy
      in era * 146097 + doe - 719468)"

definition time_Date :: "int \<Rightarrow> int \<Rightarrow> int \<Rightarrow> int \<Rightarrow> int \<Rightarrow> int \<Rightarrow> nat \<Rightarrow> go_time" where
  "time_Date y m d hh mm ss ns =
     \<lparr>unix_sec = ((days_from_civil y m d * 24 + hh) * 60 + mm) * 60 + ss, nanos = ns, in_utc = True\<rparr>"

lemma zero_time_Date: "zero_time = time_Date 1 1 1 0 0 0 0"
  by (simp add: zero_time_def time_Date_def days_from_civil_def Let_def)

definition minimumPostgreSQLTimestamp :: go_time where
  "minimumPostgreSQLTimestamp = time_Date (- 4713) 11 24 0 0 0 0"

definition maximumPostgreSQLTimestamp :: go_time where
  "maximumPostgreSQLTimestamp = time_Date 294276 12 31 23 59 59 999999000"

lemma minimum_value:
  "minimumPostgreSQLTimestamp = \<lparr>unix_sec = - 210866803200, nanos = 0, in_utc = True\<rparr>"
  by (simp add: minimumPostgreSQLTimestamp_def time_Date_def days_from_civil_def Let_def)

lemma maximum_value:
  "maximumPostgreSQLTimestamp = \<lparr>unix_sec = 9224318015999, nanos = 999999000, in_utc = True\<rparr>"
  by (simp add: maximumPostgreSQLTimestamp_def time_Date_def days_from_civil_def Let_def)

definition isPostgreSQLTimestamp :: "go_time \<Rightarrow> bool" where
  "isPostgreSQLTimestamp value \<longleftrightarrow>
     \<not> IsZero value \<and> in_utc value \<and> nanos value mod 1000 = 0 \<and>
     \<not> Before value minimumPostgreSQLTimestamp \<and> \<not> After value maximumPostgreSQLTimestamp"

section \<open>The timestamptz column type\<close>

text \<open>
  A stored instant is a number of microseconds. \<open>time_of_pg\<close> is what
  \<^verbatim>\<open>scanJobRow\<close> holds after \<^verbatim>\<open>.UTC()\<close>; \<open>pg_of_time\<close> is the value an accepted
  argument denotes. \<open>pg_finite\<close> is the finite range of \<^verbatim>\<open>timestamptz\<close>.
\<close>

type_synonym timestamptz = int

definition time_of_pg :: "timestamptz \<Rightarrow> go_time" where
  "time_of_pg us = \<lparr>unix_sec = us div 1000000, nanos = nat (us mod 1000000) * 1000, in_utc = True\<rparr>"

definition pg_of_time :: "go_time \<Rightarrow> timestamptz" where
  "pg_of_time t = unix_sec t * 1000000 + int (nanos t) div 1000"

definition pg_finite :: "timestamptz \<Rightarrow> bool" where
  "pg_finite us \<longleftrightarrow> - 210866803200000000 \<le> us \<and> us \<le> 9224318015999999999"

text \<open>The stored form of Go's zero time: the one finite instant the library treats as absent.\<close>

definition pg_zero :: timestamptz where
  "pg_zero = - 62135596800000000"

definition pg_instant :: "timestamptz \<Rightarrow> bool" where
  "pg_instant us \<longleftrightarrow> pg_finite us \<and> us \<noteq> pg_zero"

lemma time_of_pg_ok [simp]: "time_ok (time_of_pg us)"
  by (simp add: time_ok_def time_of_pg_def)

lemma pg_of_time_of_pg [simp]: "pg_of_time (time_of_pg us) = us"
  by (simp add: pg_of_time_def time_of_pg_def)

lemma time_of_pg_inject [simp]: "time_of_pg a = time_of_pg b \<longleftrightarrow> a = b"
  by (metis pg_of_time_of_pg)

lemma IsZero_time_of_pg [simp]: "IsZero (time_of_pg us) \<longleftrightarrow> us = pg_zero"
proof -
  have "us div 1000000 = - 62135596800 \<and> us mod 1000000 = 0 \<longleftrightarrow> us = - 62135596800000000"
    using div_mult_mod_eq [of us 1000000] by auto
  moreover have "nat (us mod 1000000) = 0 \<longleftrightarrow> us mod 1000000 = 0"
    using pos_mod_sign [of 1000000 us] by linarith
  ultimately show ?thesis by (simp add: IsZero_def time_of_pg_def pg_zero_def)
qed

lemma Before_time_of_pg [simp]: "Before (time_of_pg a) (time_of_pg b) \<longleftrightarrow> a < b"
proof -
  have "(qa < qb \<or> (qa = qb \<and> nat ra * 1000 < nat rb * 1000)) \<longleftrightarrow>
      qa * 1000000 + ra < qb * 1000000 + rb"
    if "0 \<le> ra" "ra < 1000000" "0 \<le> rb" "rb < 1000000" for qa qb ra rb :: int
    using that by (cases qa qb rule: linorder_cases) auto
  from this [of "a mod 1000000" "b mod 1000000" "a div 1000000" "b div 1000000"]
  show ?thesis by (simp add: Before_def time_of_pg_def)
qed

lemma minimum_of_pg: "minimumPostgreSQLTimestamp = time_of_pg (- 210866803200000000)"
  by (simp add: minimum_value time_of_pg_def)

lemma maximum_of_pg: "maximumPostgreSQLTimestamp = time_of_pg 9224318015999999999"
  by (simp add: maximum_value time_of_pg_def)

lemma isPostgreSQLTimestamp_time_of_pg [simp]:
  "isPostgreSQLTimestamp (time_of_pg us) \<longleftrightarrow> pg_instant us"
proof -
  have "in_utc (time_of_pg us)" "nanos (time_of_pg us) mod 1000 = 0"
    by (simp_all add: time_of_pg_def)
  then show ?thesis
    by (auto simp: isPostgreSQLTimestamp_def pg_instant_def pg_finite_def minimum_of_pg
        maximum_of_pg After_def)
qed

lemma time_of_pg_of_time:
  assumes "time_ok t" "in_utc t" "nanos t mod 1000 = 0"
  shows "time_of_pg (pg_of_time t) = t"
proof -
  from assms(3) obtain k where k: "nanos t = 1000 * k" by (auto simp: mod_eq_0_iff_dvd)
  with assms(1) have "k < 1000000" by (simp add: time_ok_def)
  with k assms(2) show ?thesis
    by (cases t) (simp add: time_of_pg_def pg_of_time_def)
qed

lemma isPostgreSQLTimestamp_roundtrip:
  assumes "time_ok t" "isPostgreSQLTimestamp t"
  shows "time_of_pg (pg_of_time t) = t" "pg_instant (pg_of_time t)"
proof -
  show "time_of_pg (pg_of_time t) = t"
    using assms by (intro time_of_pg_of_time) (simp_all add: isPostgreSQLTimestamp_def)
  then show "pg_instant (pg_of_time t)"
    using assms(2) isPostgreSQLTimestamp_time_of_pg [of "pg_of_time t"] by simp
qed

text \<open>
  C36. \<^verbatim>\<open>isPostgreSQLTimestamp\<close> admits exactly the instants a \<^verbatim>\<open>timestamptz\<close> column
  returns unchanged: a Go time passes if and only if it is the UTC reading of some finite
  stored instant other than Go's zero time.
\<close>

theorem timestamps_exact:
  assumes "time_ok t"
  shows "isPostgreSQLTimestamp t \<longleftrightarrow> (\<exists>us. pg_instant us \<and> time_of_pg us = t)"
  using isPostgreSQLTimestamp_roundtrip [OF assms] by auto

theorem timestamps_exact_witness:
  "isPostgreSQLTimestamp \<lparr>unix_sec = 5, nanos = 7000, in_utc = True\<rparr>"
proof -
  let ?t = "\<lparr>unix_sec = 5, nanos = 7000, in_utc = True\<rparr>"
  have "time_ok ?t" by (simp add: time_ok_def)
  moreover have "pg_instant 5000007 \<and> time_of_pg 5000007 = ?t"
    by (simp add: pg_instant_def pg_finite_def pg_zero_def time_of_pg_def)
  ultimately show ?thesis using timestamps_exact by blast
qed

end
