(* ===== verification/Types.thy ===== *)
theory Types
  imports GoTime
begin

text \<open>
  The public data of \<^verbatim>\<open>types.go\<close>: the limits, the lifecycle states and the structs.
  Field names carry the struct's name, because record fields are global in HOL. A
  \<^verbatim>\<open>[]byte\<close> that may be nil is a \<^typ>\<open>bytes option\<close> (\<^const>\<open>None\<close> is nil).
\<close>

section \<open>Limits\<close>

definition MaxQueueBytes :: nat where [go_defs]: "MaxQueueBytes = 128"
definition MaxKindBytes :: nat where [go_defs]: "MaxKindBytes = 128"
definition MaxWorkerBytes :: nat where [go_defs]: "MaxWorkerBytes = 256"
definition MaxIdempotencyKeyBytes :: nat where [go_defs]: "MaxIdempotencyKeyBytes = 256"
definition MaxPayloadBytes :: nat where [go_defs]: "MaxPayloadBytes = 1048576"
definition MaxFailureBytes :: nat where [go_defs]: "MaxFailureBytes = 4096"
definition MaxAttempts :: int where [go_defs]: "MaxAttempts = 100"
definition MaxDeadPage :: int where [go_defs]: "MaxDeadPage = 100"

text \<open>Durations are nanoseconds; \<open>microsecond\<close> is \<^verbatim>\<open>time.Microsecond\<close> and so on.\<close>

definition microsecond :: duration where [go_defs]: "microsecond = 1000"
definition minute :: duration where [go_defs]: "minute = 60000000000"
definition MinLeaseDuration :: duration where [go_defs]: "MinLeaseDuration = 1000000000"
definition MaxLeaseDuration :: duration where [go_defs]: "MaxLeaseDuration = 3600000000000"
definition MaxRetryDelay :: duration where [go_defs]: "MaxRetryDelay = 24 * 3600000000000"

section \<open>Lifecycle states\<close>

text \<open>\<^verbatim>\<open>type State string\<close>: any string is a State value; five of them are meaningful.\<close>

type_synonym State = string

definition StatePending :: State where "StatePending = ''pending''"
definition StateRunning :: State where "StateRunning = ''running''"
definition StateSucceeded :: State where "StateSucceeded = ''succeeded''"
definition StateDead :: State where "StateDead = ''dead''"
definition StateCanceled :: State where "StateCanceled = ''canceled''"

lemmas state_defs =
  StatePending_def StateRunning_def StateSucceeded_def StateDead_def StateCanceled_def

definition known_states :: "State list" where
  "known_states = [StatePending, StateRunning, StateSucceeded, StateDead, StateCanceled]"

lemma distinct_known_states: "distinct known_states"
  by (simp add: known_states_def state_defs)

lemma state_distinct [simp]:
  "StatePending \<noteq> StateRunning" "StatePending \<noteq> StateSucceeded" "StatePending \<noteq> StateDead"
  "StatePending \<noteq> StateCanceled" "StateRunning \<noteq> StateSucceeded" "StateRunning \<noteq> StateDead"
  "StateRunning \<noteq> StateCanceled" "StateSucceeded \<noteq> StateDead" "StateSucceeded \<noteq> StateCanceled"
  "StateDead \<noteq> StateCanceled"
  by (simp_all add: state_defs)

lemmas state_distinct_sym [simp] = state_distinct [symmetric]

section \<open>Structs\<close>

record Lease =
  Lease_JobID :: string
  Lease_Token :: string

definition zero_Lease :: Lease where
  "zero_Lease = \<lparr>Lease_JobID = '''', Lease_Token = ''''\<rparr>"

record Job =
  Job_ID :: string
  Job_Queue :: string
  Job_Kind :: string
  Job_Payload :: "bytes option"
  Job_IdempotencyKey :: string
  Job_State :: State
  Job_Attempts :: int
  Job_MaxAttempts :: int
  Job_AvailableAt :: go_time
  Job_CreatedAt :: go_time
  Job_UpdatedAt :: go_time
  Job_Lease :: Lease
  Job_LeaseOwner :: string
  Job_LeaseUntil :: go_time
  Job_LastError :: string
  Job_FinishedAt :: go_time

text \<open>\<^verbatim>\<open>Job{}\<close>, returned beside every error that carries no job.\<close>

definition zero_Job :: Job where
  "zero_Job = \<lparr>Job_ID = '''', Job_Queue = '''', Job_Kind = '''', Job_Payload = None,
     Job_IdempotencyKey = '''', Job_State = '''', Job_Attempts = 0, Job_MaxAttempts = 0,
     Job_AvailableAt = zero_time, Job_CreatedAt = zero_time, Job_UpdatedAt = zero_time,
     Job_Lease = zero_Lease, Job_LeaseOwner = '''', Job_LeaseUntil = zero_time,
     Job_LastError = '''', Job_FinishedAt = zero_time\<rparr>"

record EnqueueRequest =
  Enqueue_Queue :: string
  Enqueue_Kind :: string
  Enqueue_Payload :: "bytes option"
  Enqueue_IdempotencyKey :: string
  Enqueue_MaxAttempts :: int
  Enqueue_AvailableAt :: go_time

definition zero_EnqueueRequest :: EnqueueRequest where
  "zero_EnqueueRequest = \<lparr>Enqueue_Queue = '''', Enqueue_Kind = '''', Enqueue_Payload = None,
     Enqueue_IdempotencyKey = '''', Enqueue_MaxAttempts = 0, Enqueue_AvailableAt = zero_time\<rparr>"

record ClaimRequest =
  Claim_Queue :: string
  Claim_Worker :: string
  Claim_LeaseDuration :: duration

record Failure =
  Failure_Message :: string
  Failure_RetryAfter :: duration
  Failure_Permanent :: bool

record DeadCursor =
  Cursor_FinishedAt :: go_time
  Cursor_ID :: string

record Counts =
  Count_Pending :: int
  Count_Running :: int
  Count_Succeeded :: int
  Count_Dead :: int
  Count_Canceled :: int

definition zero_Counts :: Counts where
  "zero_Counts = \<lparr>Count_Pending = 0, Count_Running = 0, Count_Succeeded = 0, Count_Dead = 0,
     Count_Canceled = 0\<rparr>"

record RetryPolicy =
  Policy_Initial :: duration
  Policy_Maximum :: duration

text \<open>The bytes of a possibly nil slice: \<^verbatim>\<open>len(nil)\<close> is 0 and ranging over nil does nothing.\<close>

definition slice_bytes :: "bytes option \<Rightarrow> bytes" where
  "slice_bytes p = (case p of None \<Rightarrow> [] | Some b \<Rightarrow> b)"

lemma slice_bytes_simps [simp]: "slice_bytes None = []" "slice_bytes (Some b) = b"
  by (simp_all add: slice_bytes_def)

end
