(* ===== verification/Errors.thy ===== *)
theory Errors
  imports Types
begin

text \<open>
  Go error values and \<^verbatim>\<open>errors.go\<close>. An error is the tree that \<^verbatim>\<open>errors.Is\<close> and
  \<^verbatim>\<open>errors.As\<close> walk: sentinels, leaves without a chain, \<^verbatim>\<open>fmt.Errorf\<close> with one
  \<^verbatim>\<open>%w\<close>, \<^verbatim>\<open>errors.Join\<close>, the marker of \<^verbatim>\<open>Permanent\<close> and the two
  reconciliation errors. A possibly nil \<^verbatim>\<open>error\<close> is an option.
\<close>

section \<open>Error values\<close>

text \<open>
  The sentinels of \<^verbatim>\<open>errors.go\<close>, of \<^verbatim>\<open>rows.go\<close> and \<^verbatim>\<open>worker.go\<close>, and those of
  pgx, context and io that the sources compare with or pass on.
\<close>

datatype sentinel =
    ErrInvalid | ErrNotFound | ErrNoJob | ErrLeaseLost | ErrCanceled | ErrStateConflict
  | ErrIdempotencyConflict | ErrCommitOutcomeUnknown
  | errStoredJobUnknownState | errHandlerPanicked | errHandlerFinished
  | pgx_ErrNoRows | pgx_ErrTxClosed | context_Canceled | context_DeadlineExceeded
  | io_EOF | io_ErrUnexpectedEOF

fun sentinel_text :: "sentinel \<Rightarrow> string" where
  "sentinel_text ErrInvalid = ''invalid job input''"
| "sentinel_text ErrNotFound = ''job not found''"
| "sentinel_text ErrNoJob = ''no eligible job''"
| "sentinel_text ErrLeaseLost = ''job lease lost''"
| "sentinel_text ErrCanceled = ''job canceled''"
| "sentinel_text ErrStateConflict = ''job state conflict''"
| "sentinel_text ErrIdempotencyConflict = ''idempotency key conflicts with an existing request''"
| "sentinel_text ErrCommitOutcomeUnknown = ''job transaction commit outcome unknown''"
| "sentinel_text errStoredJobUnknownState = ''stored job has unknown state''"
| "sentinel_text errHandlerPanicked = ''handler panicked''"
| "sentinel_text errHandlerFinished = ''handler finished''"
| "sentinel_text pgx_ErrNoRows = ''no rows in result set''"
| "sentinel_text pgx_ErrTxClosed = ''tx is closed''"
| "sentinel_text context_Canceled = ''context canceled''"
| "sentinel_text context_DeadlineExceeded = ''context deadline exceeded''"
| "sentinel_text io_EOF = ''EOF''"
| "sentinel_text io_ErrUnexpectedEOF = ''unexpected EOF''"

datatype go_error =
    Sentinel sentinel
  | Opaque string
  | WrapError string go_error
  | JoinError "go_error list"
  | PermanentError go_error
  | ClaimReconciliationError Job go_error
  | LeaseReconciliationError Job Lease go_error

type_synonym error = "go_error option"
type_synonym 'a result = "go_error + 'a"

text \<open>\<^verbatim>\<open>err.Error()\<close>; a wrapped error stores its formatted text.\<close>

fun error_text :: "go_error \<Rightarrow> string" where
  "error_text (Sentinel s) = sentinel_text s"
| "error_text (Opaque msg) = msg"
| "error_text (WrapError msg _) = msg"
| "error_text (JoinError es) = concat (case map error_text es of [] \<Rightarrow> [] | t # ts \<Rightarrow> t # map ((@) [CHR 0x0A]) ts)"
| "error_text (PermanentError e) = error_text e"
| "error_text (ClaimReconciliationError _ _) =
     ''claim worker job commit outcome is unknown; reconciliation required''"
| "error_text (LeaseReconciliationError _ _ _) =
     ''worker job acknowledgement commit outcome is unknown; reconciliation required''"

text \<open>\<^verbatim>\<open>Unwrap() error\<close> and \<^verbatim>\<open>Unwrap() []error\<close> in one function.\<close>

fun unwrap :: "go_error \<Rightarrow> go_error list" where
  "unwrap (Sentinel _) = []"
| "unwrap (Opaque _) = []"
| "unwrap (WrapError _ e) = [e]"
| "unwrap (JoinError es) = es"
| "unwrap (PermanentError e) = [e]"
| "unwrap (ClaimReconciliationError _ e) = [e]"
| "unwrap (LeaseReconciliationError _ _ e) = [e]"

lemma size_unwrap: "e' \<in> set (unwrap e) \<Longrightarrow> size e' < size e"
  by (cases e) (auto simp: less_Suc_eq_le intro: size_list_estimation' trans_le_add2)

function errors_Is :: "go_error \<Rightarrow> sentinel \<Rightarrow> bool" where
  "errors_Is e s \<longleftrightarrow> e = Sentinel s \<or> list_ex (\<lambda>e'. errors_Is e' s) (unwrap e)"
  by pat_completeness auto
termination
  by (relation "measure (\<lambda>(e, s). size e)") (auto simp: size_unwrap)

declare errors_Is.simps [simp del]

lemma errors_Is_simps [simp]:
  "errors_Is (Sentinel t) s \<longleftrightarrow> t = s"
  "errors_Is (Opaque msg) s \<longleftrightarrow> False"
  "errors_Is (WrapError msg e) s \<longleftrightarrow> errors_Is e s"
  "errors_Is (JoinError es) s \<longleftrightarrow> (\<exists>e \<in> set es. errors_Is e s)"
  "errors_Is (PermanentError e) s \<longleftrightarrow> errors_Is e s"
  "errors_Is (ClaimReconciliationError j e) s \<longleftrightarrow> errors_Is e s"
  "errors_Is (LeaseReconciliationError j l e) s \<longleftrightarrow> errors_Is e s"
  by (subst errors_Is.simps, simp add: list_ex_iff)+

text \<open>\<^verbatim>\<open>errors.Is(err, target)\<close> on a possibly nil error: nil matches no sentinel.\<close>

definition Is :: "error \<Rightarrow> sentinel \<Rightarrow> bool" where
  "Is err s = (case err of None \<Rightarrow> False | Some e \<Rightarrow> errors_Is e s)"

lemma Is_simps [simp]: "Is None s = False" "Is (Some e) s = errors_Is e s"
  by (simp_all add: Is_def)

section \<open>Constructors of the sources\<close>

text \<open>\<^verbatim>\<open>fmt.Errorf("prefix: %w", err)\<close> and \<^verbatim>\<open>fmt.Errorf("%w: msg", ErrInvalid)\<close>.\<close>

definition errorf_wrap :: "string \<Rightarrow> go_error \<Rightarrow> go_error" where
  "errorf_wrap prefix e = WrapError (prefix @ '': '' @ error_text e) e"

definition invalid :: "string \<Rightarrow> go_error" where
  "invalid msg = WrapError (sentinel_text ErrInvalid @ '': '' @ msg) (Sentinel ErrInvalid)"

lemma errors_Is_errorf_wrap [simp]: "errors_Is (errorf_wrap p e) s = errors_Is e s"
  by (simp add: errorf_wrap_def)

lemma errors_Is_invalid [simp]: "errors_Is (invalid msg) s \<longleftrightarrow> s = ErrInvalid"
  by (auto simp: invalid_def)

section \<open>errors.go\<close>

definition Permanent :: "error \<Rightarrow> error" where
  "Permanent err = (case err of None \<Rightarrow> None | Some e \<Rightarrow> Some (PermanentError e))"

text \<open>\<^verbatim>\<open>errors.As(err, &target)\<close> for \<^verbatim>\<open>permanentError\<close>: is the marker anywhere in the tree?\<close>

function has_permanent :: "go_error \<Rightarrow> bool" where
  "has_permanent e \<longleftrightarrow>
     (case e of PermanentError _ \<Rightarrow> True | _ \<Rightarrow> False) \<or> list_ex has_permanent (unwrap e)"
  by pat_completeness auto
termination
  by (relation "measure size") (auto simp: size_unwrap)

declare has_permanent.simps [simp del]

lemma has_permanent_simps [simp]:
  "has_permanent (Sentinel t) \<longleftrightarrow> False"
  "has_permanent (Opaque msg) \<longleftrightarrow> False"
  "has_permanent (WrapError msg e) \<longleftrightarrow> has_permanent e"
  "has_permanent (JoinError es) \<longleftrightarrow> (\<exists>e \<in> set es. has_permanent e)"
  "has_permanent (PermanentError e) \<longleftrightarrow> True"
  "has_permanent (ClaimReconciliationError j e) \<longleftrightarrow> has_permanent e"
  "has_permanent (LeaseReconciliationError j l e) \<longleftrightarrow> has_permanent e"
  by (subst has_permanent.simps, simp add: list_ex_iff)+

definition IsPermanent :: "error \<Rightarrow> bool" where
  "IsPermanent err = (case err of None \<Rightarrow> False | Some e \<Rightarrow> has_permanent e)"

fun ReconciliationJob :: "go_error \<Rightarrow> Job option" where
  "ReconciliationJob (ClaimReconciliationError j _) = Some j"
| "ReconciliationJob (LeaseReconciliationError j _ _) = Some j"
| "ReconciliationJob _ = None"

fun ReconciliationLease :: "go_error \<Rightarrow> Lease option" where
  "ReconciliationLease (LeaseReconciliationError _ l _) = Some l"
| "ReconciliationLease _ = None"

text \<open>
  \<^verbatim>\<open>Permanent\<close> marks a handler error as permanent, keeps nil nil, and hides nothing:
  the marked error has the same text and matches exactly the sentinels the original
  matched. Wrapping an error with \<^verbatim>\<open>%w\<close> or joining it with another neither adds nor
  loses a mark.
\<close>

theorem Permanent_transparent:
  "IsPermanent (Permanent err) = (err \<noteq> None) \<and> Is (Permanent err) s = Is err s \<and>
   map_option error_text (Permanent err) = map_option error_text err \<and>
   IsPermanent (map_option (errorf_wrap p) err) = IsPermanent err \<and>
   IsPermanent (Some (JoinError [e1, e2])) = (IsPermanent (Some e1) \<or> IsPermanent (Some e2))"
  by (cases err) (auto simp: Permanent_def IsPermanent_def errorf_wrap_def)

end
