(* ===== verification/Retry.thy ===== *)
theory Retry
  imports Errors
begin

text \<open>
  \<^verbatim>\<open>retry.go\<close>: the saturating exponential delay. The loop is modelled with the int64
  wrap-around written out at its multiplication; the closed form below shows that the
  guard against overflow makes the wrap-around unreachable.
\<close>

definition policy_invalid :: "RetryPolicy \<Rightarrow> int \<Rightarrow> bool" where
  "policy_invalid policy attempt \<longleftrightarrow>
     attempt < 1 \<or> Policy_Initial policy < 0 \<or> Policy_Maximum policy < 0 \<or>
     Policy_Maximum policy > MaxRetryDelay \<or> Policy_Initial policy > Policy_Maximum policy"

function delay_loop :: "int \<Rightarrow> int \<Rightarrow> duration \<Rightarrow> duration \<Rightarrow> duration" where
  "delay_loop current attempt delay maximum =
     (if current < attempt \<and> delay < maximum
      then if delay > maximum sdiv 2 then maximum
           else delay_loop (current + 1) attempt (int64 (delay * 2)) maximum
      else min delay maximum)"
  by pat_completeness auto
termination
  by (relation "measure (\<lambda>(current, attempt, _, _). nat (attempt - current))") auto

declare delay_loop.simps [simp del]

definition Delay :: "RetryPolicy \<Rightarrow> int \<Rightarrow> duration result" where
  "Delay policy attempt =
     (if policy_invalid policy attempt then Inl (invalid ''retry policy is invalid'')
      else if Policy_Initial policy = 0 then Inr 0
      else Inr (delay_loop 1 attempt (Policy_Initial policy) (Policy_Maximum policy)))"

lemma sdiv_2_pos: "0 \<le> (m::int) \<Longrightarrow> m sdiv 2 = m div 2"
  by (simp add: signed_divide_int_def sgn_if)

text \<open>The loop doubles while that stays within the maximum: the closed form.\<close>

lemma delay_loop_closed:
  assumes "0 < delay" "0 \<le> maximum" "maximum < 2 ^ 62"
  shows "delay_loop current attempt delay maximum =
    min (delay * 2 ^ nat (attempt - current)) maximum"
  using assms
proof (induction current attempt delay maximum rule: delay_loop.induct)
  case (1 current attempt delay maximum)
  show ?case
  proof (cases "current < attempt \<and> delay < maximum")
    case False
    have "delay \<le> delay * 2 ^ nat (attempt - current)" using "1.prems"(1) by simp
    with False show ?thesis
      by (subst delay_loop.simps) (auto simp: min_def)
  next
    case True
    define k where "k = nat (attempt - (current + 1))"
    have k: "nat (attempt - current) = Suc k" using True unfolding k_def by linarith
    show ?thesis
    proof (cases "delay > maximum sdiv 2")
      case big: True
      then have "maximum \<le> delay * 2" using "1.prems" by (simp add: sdiv_2_pos)
      also have "\<dots> \<le> delay * 2 * 2 ^ k" using "1.prems"(1) by simp
      finally show ?thesis using True big k by (subst delay_loop.simps) (simp add: min_def mult.assoc)
    next
      case small: False
      then have "delay * 2 \<le> maximum" using "1.prems" by (simp add: sdiv_2_pos)
      then have id: "int64 (delay * 2) = delay * 2" using "1.prems" by (intro int64_id) simp_all
      have "delay_loop (current + 1) attempt (int64 (delay * 2)) maximum =
          min (int64 (delay * 2) * 2 ^ k) maximum"
        unfolding k_def by (rule "1.IH" [OF True small]) (use id "1.prems" in simp_all)
      with True small k id show ?thesis by (subst delay_loop.simps) (simp add: mult.assoc)
    qed
  qed
qed

lemma Delay_closed:
  assumes "\<not> policy_invalid policy attempt"
  shows "Delay policy attempt =
    Inr (min (Policy_Initial policy * 2 ^ nat (attempt - 1)) (Policy_Maximum policy))"
  using assms
  by (auto simp: Delay_def policy_invalid_def go_defs delay_loop_closed)

lemma Delay_Inr_iff: "(\<exists>d. Delay policy attempt = Inr d) \<longleftrightarrow> \<not> policy_invalid policy attempt"
  by (auto simp: Delay_def)

lemma Delay_bounds:
  assumes "Delay policy attempt = Inr d"
  shows "0 \<le> d" "d \<le> Policy_Maximum policy" "d \<le> MaxRetryDelay"
proof -
  have p: "\<not> policy_invalid policy attempt" using assms Delay_Inr_iff by blast
  with assms Delay_closed have
    d: "d = min (Policy_Initial policy * 2 ^ nat (attempt - 1)) (Policy_Maximum policy)"
    by fastforce
  with p show "0 \<le> d" "d \<le> Policy_Maximum policy" "d \<le> MaxRetryDelay"
    by (auto simp: policy_invalid_def min_def)
qed

lemma Delay_microseconds:
  assumes "Delay policy attempt = Inr d" "1000 dvd Policy_Initial policy" "1000 dvd Policy_Maximum policy"
  shows "1000 dvd d"
proof -
  have p: "\<not> policy_invalid policy attempt" using assms Delay_Inr_iff by blast
  with assms Delay_closed have
    "d = min (Policy_Initial policy * 2 ^ nat (attempt - 1)) (Policy_Maximum policy)"
    by fastforce
  with assms(2,3) show ?thesis by (simp add: min_def)
qed

text \<open>
  C31. \<^verbatim>\<open>RetryPolicy.Delay\<close> is the saturating base-2 delay, computed without overflow for
  every attempt number: on a valid policy it returns
  \<open>min (Initial * 2 ^ (attempt - 1)) Maximum\<close>, never more than 24 hours, and it fails
  with \<^verbatim>\<open>ErrInvalid\<close> on exactly the other inputs.
\<close>

theorem Delay_saturating:
  "Delay policy attempt =
     (if policy_invalid policy attempt then Inl (invalid ''retry policy is invalid'')
      else Inr (min (Policy_Initial policy * 2 ^ nat (attempt - 1)) (Policy_Maximum policy)))"
  using Delay_closed by (simp add: Delay_def)

text \<open>
  The retry delay never shrinks from one attempt to the next, and a policy with
  microsecond-precise bounds yields microsecond-precise delays, which is what
  \<^verbatim>\<open>Fail\<close> requires.
\<close>

theorem Delay_monotone:
  assumes "Delay policy a = Inr d" "a \<le> b"
  shows "\<exists>d'. Delay policy b = Inr d' \<and> d \<le> d' \<and>
    (1000 dvd Policy_Initial policy \<and> 1000 dvd Policy_Maximum policy \<longrightarrow> 1000 dvd d')"
proof -
  have a: "\<not> policy_invalid policy a" using assms(1) Delay_Inr_iff by blast
  with assms(2) have b: "\<not> policy_invalid policy b" by (simp add: policy_invalid_def)
  have "Policy_Initial policy * 2 ^ nat (a - 1) \<le> Policy_Initial policy * 2 ^ nat (b - 1)"
    using a assms(2) by (intro mult_left_mono power_increasing) (simp_all add: policy_invalid_def)
  with assms(1) Delay_closed [OF a] Delay_closed [OF b]
  have "\<exists>d'. Delay policy b = Inr d' \<and> d \<le> d'" by (auto simp: min_def)
  then show ?thesis using Delay_microseconds by blast
qed

theorem Delay_monotone_witness:
  "\<exists>d'. Delay \<lparr>Policy_Initial = 1000000, Policy_Maximum = 5000000\<rparr> 4 = Inr d' \<and> 2000000 \<le> d' \<and>
    (1000 dvd (1000000::int) \<and> 1000 dvd (5000000::int) \<longrightarrow> 1000 dvd d')"
proof -
  let ?p = "\<lparr>Policy_Initial = 1000000, Policy_Maximum = 5000000\<rparr>"
  have "Delay ?p 2 = Inr 2000000"
    by (subst Delay_closed) (simp_all add: policy_invalid_def go_defs)
  from Delay_monotone [OF this, of 4] show ?thesis by simp
qed

end
