(* ===== verification/Utf8.thy ===== *)
theory Utf8
  imports Prelude
begin

text \<open>
  The parts of Go's \<^verbatim>\<open>unicode/utf8\<close> and \<^verbatim>\<open>strings\<close> packages that \<^verbatim>\<open>pkg/jobs\<close>
  calls: \<^verbatim>\<open>utf8.ValidString\<close>, \<^verbatim>\<open>utf8.RuneStart\<close>, \<^verbatim>\<open>strings.IndexByte\<close>,
  \<^verbatim>\<open>strings.ToValidUTF8\<close> and \<^verbatim>\<open>strings.ReplaceAll\<close> of one byte. The lemmas show
  that a valid string may be cut before any byte that starts a rune, that normalisation
  always yields a valid string, and that redacting NUL bytes keeps it valid.
\<close>

section \<open>Decoding\<close>

definition ord :: "char \<Rightarrow> nat" where
  "ord c = of_char c"

definition RuneStart :: "char \<Rightarrow> bool" where
  "RuneStart c \<longleftrightarrow> \<not> (128 \<le> ord c \<and> ord c < 192)"

text \<open>
  What the first byte of a multi-byte sequence announces: the number of bytes and the
  range of the second byte (\<^verbatim>\<open>first\<close> and \<^verbatim>\<open>acceptRanges\<close> of \<^verbatim>\<open>unicode/utf8\<close>).
\<close>

definition first_byte :: "nat \<Rightarrow> (nat \<times> nat \<times> nat) option" where
  "first_byte b =
     (if 0xC2 \<le> b \<and> b \<le> 0xDF then Some (2, 0x80, 0xBF)
      else if b = 0xE0 then Some (3, 0xA0, 0xBF)
      else if b = 0xED then Some (3, 0x80, 0x9F)
      else if 0xE1 \<le> b \<and> b \<le> 0xEF then Some (3, 0x80, 0xBF)
      else if b = 0xF0 then Some (4, 0x90, 0xBF)
      else if 0xF1 \<le> b \<and> b \<le> 0xF3 then Some (4, 0x80, 0xBF)
      else if b = 0xF4 then Some (4, 0x80, 0x8F)
      else None)"

text \<open>The width of the well-formed sequence a string starts with; 0 if there is none.\<close>

definition rune_size :: "string \<Rightarrow> nat" where
  "rune_size s =
     (case s of [] \<Rightarrow> 0
      | c # cs \<Rightarrow>
         if ord c < 128 then 1
         else (case first_byte (ord c) of None \<Rightarrow> 0
               | Some (n, lo, hi) \<Rightarrow>
                  if n - 1 \<le> length cs \<and> lo \<le> ord (cs ! 0) \<and> ord (cs ! 0) \<le> hi \<and>
                     list_all (\<lambda>d. \<not> RuneStart d) (take (n - 2) (tl cs))
                  then n else 0))"

function ValidString :: "string \<Rightarrow> bool" where
  "ValidString s \<longleftrightarrow>
     (if s = [] then True else if rune_size s = 0 then False
      else ValidString (drop (rune_size s) s))"
  by pat_completeness auto
termination
  by (relation "measure length") (auto simp: length_drop)

declare ValidString.simps [simp del]

lemma ValidString_Nil [simp]: "ValidString []"
  by (subst ValidString.simps) simp

lemma first_byte_bounds:
  assumes "first_byte b = Some (n, lo, hi)"
  shows "2 \<le> n" "n \<le> 4" "128 \<le> lo" "hi < 192" "128 \<le> b"
  using assms by (auto simp: first_byte_def split: if_splits)

lemma rune_size_Nil [simp]: "rune_size [] = 0"
  by (simp add: rune_size_def)

lemma rune_size_ascii [simp]: "ord c < 128 \<Longrightarrow> rune_size (c # cs) = 1"
  by (simp add: rune_size_def)

lemma rune_size_multi:
  assumes "128 \<le> ord c" "rune_size (c # cs) = n" "0 < n"
  obtains lo hi where "first_byte (ord c) = Some (n, lo, hi)" "n - 1 \<le> length cs"
    "lo \<le> ord (cs ! 0)" "ord (cs ! 0) \<le> hi" "\<forall>d \<in> set (take (n - 2) (tl cs)). \<not> RuneStart d"
proof -
  from assms obtain m lo hi where f: "first_byte (ord c) = Some (m, lo, hi)"
    by (cases "first_byte (ord c)") (auto simp: rune_size_def)
  with assms have "m = n" "n - 1 \<le> length cs" "lo \<le> ord (cs ! 0)" "ord (cs ! 0) \<le> hi"
    "\<forall>d \<in> set (take (n - 2) (tl cs)). \<not> RuneStart d"
    by (simp_all add: rune_size_def list_all_iff split: if_splits)
  with f show ?thesis using that by blast
qed

lemma rune_size_le_length: "rune_size s \<le> length s"
proof (cases s)
  case (Cons c cs)
  show ?thesis
  proof (cases "ord c < 128 \<or> rune_size s = 0")
    case False
    with Cons have "128 \<le> ord c" "0 < rune_size (c # cs)" by auto
    then obtain lo hi where "rune_size (c # cs) - 1 \<le> length cs"
      using rune_size_multi [of c cs "rune_size (c # cs)"] by metis
    with Cons show ?thesis by simp
  qed (use Cons in auto)
qed simp

text \<open>Every byte of a sequence after the first is a continuation byte.\<close>

lemma rune_size_continuation:
  assumes "0 < i" "i < rune_size s"
  shows "\<not> RuneStart (s ! i)"
proof (cases s)
  case (Cons c cs)
  show ?thesis
  proof (cases "ord c < 128")
    case False
    define n where "n = rune_size (c # cs)"
    have "0 < n" "i < n" using assms Cons by (auto simp: n_def)
    with False obtain lo hi where f: "first_byte (ord c) = Some (n, lo, hi)" "n - 1 \<le> length cs"
      "lo \<le> ord (cs ! 0)" "ord (cs ! 0) \<le> hi" "\<forall>d \<in> set (take (n - 2) (tl cs)). \<not> RuneStart d"
      using rune_size_multi [of c cs n] by (auto simp: n_def)
    show ?thesis
    proof (cases "i = 1")
      case True
      with f(1,3,4) Cons show ?thesis using first_byte_bounds [OF f(1)] by (simp add: RuneStart_def)
    next
      case False
      with assms(1) \<open>i < n\<close> f(2) have "cs ! (i - 1) = take (n - 2) (tl cs) ! (i - 2)"
        by (cases cs) (auto simp: nth_Cons' numeral_2_eq_2)
      moreover have "i - 2 < length (take (n - 2) (tl cs))"
        using False assms(1) \<open>i < n\<close> f(2) by auto
      ultimately have "cs ! (i - 1) \<in> set (take (n - 2) (tl cs))" by (metis nth_mem)
      with f(5) Cons assms(1) show ?thesis by (simp add: nth_Cons')
    qed
  qed (use assms Cons in auto)
qed (use assms in simp)

text \<open>The width is decided by the bytes of the sequence alone.\<close>

lemma rune_size_prefix:
  assumes "0 < rune_size s"
  shows "rune_size (take (rune_size s) s @ t) = rune_size s"
proof (cases s)
  case (Cons c cs)
  show ?thesis
  proof (cases "ord c < 128")
    case False
    define n where "n = rune_size (c # cs)"
    have n: "0 < n" using assms Cons by (simp add: n_def)
    with False obtain lo hi where f: "first_byte (ord c) = Some (n, lo, hi)" "n - 1 \<le> length cs"
      "lo \<le> ord (cs ! 0)" "ord (cs ! 0) \<le> hi" "\<forall>d \<in> set (take (n - 2) (tl cs)). \<not> RuneStart d"
      using rune_size_multi [of c cs n] by (auto simp: n_def)
    have n2: "2 \<le> n" using first_byte_bounds(1) [OF f(1)] .
    obtain m where m: "n = Suc (Suc m)" using n2 by (metis add_2_eq_Suc le_Suc_ex)
    obtain d ds where cs: "cs = d # ds" using f(2) m by (cases cs) auto
    have "rune_size (c # take (Suc m) cs @ t) = n"
      using False f m cs by (auto simp: rune_size_def list_all_iff)
    then show ?thesis using Cons m by (simp add: n_def)
  qed (use Cons in simp)
qed (use assms in simp)

lemma ValidString_step:
  "0 < rune_size s \<Longrightarrow> ValidString s \<longleftrightarrow> ValidString (drop (rune_size s) s)"
  by (subst ValidString.simps) auto

lemma ValidString_pos: "ValidString s \<Longrightarrow> s \<noteq> [] \<Longrightarrow> 0 < rune_size s"
  by (subst (asm) ValidString.simps) (auto split: if_splits)

lemma ValidString_rune_append:
  assumes "0 < rune_size s" "ValidString t"
  shows "ValidString (take (rune_size s) s @ t)"
proof -
  let ?n = "rune_size s"
  have "length (take ?n s) = ?n" using rune_size_le_length [of s] by simp
  then have "drop (rune_size (take ?n s @ t)) (take ?n s @ t) = t"
    using assms(1) by (simp add: rune_size_prefix)
  then show ?thesis
    using assms by (subst ValidString.simps) (simp add: rune_size_prefix)
qed

lemma ValidString_append:
  "ValidString s \<Longrightarrow> ValidString t \<Longrightarrow> ValidString (s @ t)"
proof (induction s rule: ValidString.induct)
  case (1 s)
  show ?case
  proof (cases "s = []")
    case False
    define n where "n = rune_size s"
    have n: "0 < n" using ValidString_pos [OF "1.prems"(1) False] by (simp add: n_def)
    have "ValidString (drop n s @ t)"
      using "1.IH" "1.prems" False n ValidString_step [of s] by (simp add: n_def)
    then have "ValidString (take n s @ (drop n s @ t))"
      using ValidString_rune_append n unfolding n_def by blast
    then show ?thesis by (simp flip: append_assoc)
  qed (use "1.prems" in simp)
qed

text \<open>Cutting a valid string before a byte that starts a rune leaves a valid string.\<close>

lemma ValidString_take:
  "ValidString s \<Longrightarrow> i \<ge> length s \<or> RuneStart (s ! i) \<Longrightarrow> ValidString (take i s)"
proof (induction s arbitrary: i rule: ValidString.induct)
  case (1 s)
  show ?case
  proof (cases "s = [] \<or> i = 0")
    case False
    define n where "n = rune_size s"
    have n: "0 < n" "n \<le> length s"
      using ValidString_pos [OF "1.prems"(1)] False rune_size_le_length by (auto simp: n_def)
    show ?thesis
    proof (cases "i < n")
      case True
      then have "\<not> RuneStart (s ! i)" using rune_size_continuation False by (simp add: n_def)
      with "1.prems"(2) True n show ?thesis by simp
    next
      case ge: False
      have "ValidString (take (i - n) (drop n s))"
      proof (rule "1.IH" [folded n_def])
        show "ValidString (drop n s)" using "1.prems"(1) n ValidString_step by (simp add: n_def)
        show "i - n \<ge> length (drop n s) \<or> RuneStart (drop n s ! (i - n))"
          using "1.prems"(2) ge n by auto
      qed (use False n in auto)
      then have "ValidString (take n s @ take (i - n) (drop n s))"
        using ValidString_rune_append n unfolding n_def by blast
      then show ?thesis using ge take_add [of n "i - n" s] by simp
    qed
  qed auto
qed

section \<open>strings\<close>

text \<open>\<^verbatim>\<open>strings.IndexByte(s, 0) >= 0\<close>: the string contains a NUL byte.\<close>

definition has_nul :: "string \<Rightarrow> bool" where
  "has_nul s \<longleftrightarrow> CHR 0x00 \<in> set s"

text \<open>Text both \<^verbatim>\<open>utf8.ValidString\<close> and the NUL test accept.\<close>

definition clean_text :: "string \<Rightarrow> bool" where
  "clean_text s \<longleftrightarrow> ValidString s \<and> \<not> has_nul s"

text \<open>
  The loop of \<^verbatim>\<open>strings.ToValidUTF8\<close>; the flag says that the previous byte belonged to
  an invalid sequence, so that a run of invalid bytes yields one replacement.
\<close>

function to_valid_loop :: "bool \<Rightarrow> string \<Rightarrow> string \<Rightarrow> string" where
  "to_valid_loop invalid s replacement =
     (if s = [] then []
      else if ord (hd s) < 128 then hd s # to_valid_loop False (tl s) replacement
      else if rune_size s = 0
      then (if invalid then [] else replacement) @ to_valid_loop True (tl s) replacement
      else take (rune_size s) s @ to_valid_loop False (drop (rune_size s) s) replacement)"
  by pat_completeness auto
termination
  by (relation "measure (\<lambda>(i, s, r). length s)") (auto simp: length_drop)

declare to_valid_loop.simps [simp del]

definition ToValidUTF8 :: "string \<Rightarrow> string \<Rightarrow> string" where
  "ToValidUTF8 s replacement = to_valid_loop False s replacement"

text \<open>\<^verbatim>\<open>strings.ReplaceAll(s, old, new)\<close> for a one-byte \<^verbatim>\<open>old\<close>.\<close>

definition ReplaceAll :: "string \<Rightarrow> char \<Rightarrow> string \<Rightarrow> string" where
  "ReplaceAll s old new = concat (map (\<lambda>c. if c = old then new else [c]) s)"

lemma ReplaceAll_simps [simp]:
  "ReplaceAll [] old new = []"
  "ReplaceAll (c # cs) old new = (if c = old then new else [c]) @ ReplaceAll cs old new"
  "ReplaceAll (s @ t) old new = ReplaceAll s old new @ ReplaceAll t old new"
  by (simp_all add: ReplaceAll_def)

lemma ReplaceAll_id: "old \<notin> set s \<Longrightarrow> ReplaceAll s old new = s"
  by (induction s) auto

lemma set_ReplaceAll: "set (ReplaceAll s old new) \<subseteq> (set s - {old}) \<union> set new"
  by (induction s) auto

lemma ValidString_ascii: "ord c < 128 \<Longrightarrow> ValidString t \<Longrightarrow> ValidString (c # t)"
  using ValidString_rune_append [of "[c]" t] by simp

lemma to_valid_loop_valid: "ValidString r \<Longrightarrow> ValidString (to_valid_loop i s r)"
proof (induction i s r rule: to_valid_loop.induct)
  case (1 i s r)
  show ?case
  proof (cases "s = [] \<or> ord (hd s) < 128 \<or> rune_size s = 0")
    case True
    with "1" show ?thesis
      by (subst to_valid_loop.simps) (auto intro: ValidString_ascii ValidString_append)
  next
    case False
    with "1" show ?thesis
      by (subst to_valid_loop.simps) (auto intro!: ValidString_rune_append)
  qed
qed

lemma ToValidUTF8_valid: "ValidString r \<Longrightarrow> ValidString (ToValidUTF8 s r)"
  by (simp add: ToValidUTF8_def to_valid_loop_valid)

text \<open>A valid string is not changed by normalisation.\<close>

lemma to_valid_loop_id: "ValidString s \<Longrightarrow> to_valid_loop i s r = s"
proof (induction i s r rule: to_valid_loop.induct)
  case (1 i s r)
  show ?case
  proof (cases "s = []")
    case False
    then have n: "0 < rune_size s" using ValidString_pos "1.prems" by blast
    from False obtain c cs where s: "s = c # cs" by (cases s) auto
    from n "1.prems" have v: "ValidString (drop (rune_size s) s)" using ValidString_step by blast
    with "1.IH" n s False show ?thesis
      by (subst to_valid_loop.simps) auto
  qed (subst to_valid_loop.simps, simp)
qed

lemma ToValidUTF8_id: "ValidString s \<Longrightarrow> ToValidUTF8 s r = s"
  by (simp add: ToValidUTF8_def to_valid_loop_id)

text \<open>The bytes of a multi-byte sequence are all at least 128, so none of them is NUL.\<close>

lemma rune_bytes_high:
  assumes "s \<noteq> []" "128 \<le> ord (hd s)" "d \<in> set (take (rune_size s) s)"
  shows "128 \<le> ord d"
proof -
  from assms(3) obtain i where i: "i < rune_size s" "i < length s" "d = s ! i"
    by (auto simp: in_set_conv_nth)
  show ?thesis
  proof (cases "i = 0")
    case True
    with i assms(1,2) show ?thesis by (simp add: hd_conv_nth)
  next
    case False
    with i rune_size_continuation [of i s] show ?thesis by (simp add: RuneStart_def)
  qed
qed

lemma ord_NUL [simp]: "ord (CHR 0x00) = 0"
  by (simp add: ord_def)

lemma ReplaceAll_NUL_valid:
  "ValidString s \<Longrightarrow> ValidString r \<Longrightarrow> ValidString (ReplaceAll s (CHR 0x00) r)"
proof (induction s rule: ValidString.induct)
  case (1 s)
  show ?case
  proof (cases "s = []")
    case False
    define n where "n = rune_size s"
    have n: "0 < n" using ValidString_pos "1.prems"(1) False by (simp add: n_def)
    have IH: "ValidString (ReplaceAll (drop n s) (CHR 0x00) r)"
      using "1.IH" "1.prems" False n ValidString_step by (simp add: n_def)
    from False obtain c cs where s: "s = c # cs" by (cases s) auto
    show ?thesis
    proof (cases "ord c < 128")
      case True
      with IH s "1.prems"(2) show ?thesis
        by (auto simp: n_def intro: ValidString_append ValidString_ascii)
    next
      case high: False
      then have "CHR 0x00 \<notin> set (take n s)"
        using rune_bytes_high [of s] s False by (fastforce simp: n_def)
      then have "ReplaceAll (take n s @ drop n s) (CHR 0x00) r =
          take n s @ ReplaceAll (drop n s) (CHR 0x00) r"
        by (simp add: ReplaceAll_id del: append_take_drop_id)
      then show ?thesis using ValidString_rune_append [of s] n IH by (simp add: n_def)
    qed
  qed simp
qed

lemma ReplaceAll_NUL_clean:
  "ValidString s \<Longrightarrow> clean_text r \<Longrightarrow> clean_text (ReplaceAll s (CHR 0x00) r)"
  using set_ReplaceAll [of s "CHR 0x00" r]
  by (auto simp: clean_text_def has_nul_def ReplaceAll_NUL_valid)

lemma clean_text_Nil [simp]: "clean_text []"
  by (simp add: clean_text_def has_nul_def)

lemma clean_text_append: "clean_text s \<Longrightarrow> clean_text t \<Longrightarrow> clean_text (s @ t)"
  by (auto simp: clean_text_def has_nul_def ValidString_append)

text \<open>Text over printable ASCII bytes is clean.\<close>

lemma clean_text_ascii: "\<forall>c \<in> set s. 0 < ord c \<and> ord c < 128 \<Longrightarrow> clean_text s"
  by (induction s) (auto simp: clean_text_def has_nul_def intro: ValidString_ascii)

end
