(* ===== verification/Values.thy ===== *)
theory Values
  imports Errors Utf8
begin

text \<open>
  \<^verbatim>\<open>values.go\<close>: validation of the public inputs, the request fingerprint and the random
  identifiers. SHA-256 is a parameter \<open>sha256\<close> of the fingerprint; the random source is
  an \<open>io_reader\<close>, the bytes it still yields and the error it then reports.
\<close>

section \<open>Validation\<close>

definition name_char :: "char \<Rightarrow> bool" where
  "name_char c \<longleftrightarrow>
     (ord (CHR ''a'') \<le> ord c \<and> ord c \<le> ord (CHR ''z'')) \<or>
     (ord (CHR ''A'') \<le> ord c \<and> ord c \<le> ord (CHR ''Z'')) \<or>
     (ord (CHR ''0'') \<le> ord c \<and> ord c \<le> ord (CHR ''9'')) \<or>
     c \<in> set ''._:/-''"

definition validateName :: "string \<Rightarrow> string \<Rightarrow> nat \<Rightarrow> error" where
  "validateName label value maximum =
     (if length value = 0 \<or> length value > maximum then Some (invalid (label @ '' length is invalid''))
      else if list_all name_char value then None
      else Some (invalid (label @ '' contains an invalid byte'')))"

definition validateEnqueue :: "EnqueueRequest \<Rightarrow> error" where
  "validateEnqueue request =
     or_else (validateName ''queue'' (Enqueue_Queue request) MaxQueueBytes)
     (or_else (validateName ''kind'' (Enqueue_Kind request) MaxKindBytes)
     (if length (slice_bytes (Enqueue_Payload request)) > MaxPayloadBytes
      then Some (invalid ''payload exceeds 1048576 bytes'')
      else if length (Enqueue_IdempotencyKey request) > MaxIdempotencyKeyBytes \<or>
        has_nul (Enqueue_IdempotencyKey request) \<or> \<not> ValidString (Enqueue_IdempotencyKey request)
      then Some (invalid ''idempotency key is invalid'')
      else if Enqueue_MaxAttempts request < 1 \<or> Enqueue_MaxAttempts request > MaxAttempts
      then Some (invalid ''max attempts must be between 1 and 100'')
      else if \<not> IsZero (Enqueue_AvailableAt request) \<and>
        \<not> isPostgreSQLTimestamp (Enqueue_AvailableAt request)
      then Some (invalid (''availability must use UTC, PostgreSQL microsecond precision, '' @
                          ''and the finite timestamp range''))
      else None))"

definition cloneEnqueue :: "EnqueueRequest \<Rightarrow> EnqueueRequest" where
  "cloneEnqueue request =
     request\<lparr>Enqueue_Payload := Some (slice_bytes (Enqueue_Payload request))\<rparr>"

definition prepareEnqueue :: "EnqueueRequest \<Rightarrow> EnqueueRequest \<times> error" where
  "prepareEnqueue request =
     (case validateEnqueue request of
        Some err \<Rightarrow> (zero_EnqueueRequest, Some err)
      | None \<Rightarrow> (cloneEnqueue request, None))"

definition validateClaim :: "ClaimRequest \<Rightarrow> error" where
  "validateClaim request =
     or_else (validateName ''queue'' (Claim_Queue request) MaxQueueBytes)
     (if length (Claim_Worker request) = 0 \<or> length (Claim_Worker request) > MaxWorkerBytes \<or>
        has_nul (Claim_Worker request) \<or> \<not> ValidString (Claim_Worker request)
      then Some (invalid ''worker is invalid'')
      else if Claim_LeaseDuration request < MinLeaseDuration \<or>
        Claim_LeaseDuration request > MaxLeaseDuration
      then Some (invalid ''lease must be between 1s and 1h0m0s'')
      else if Claim_LeaseDuration request smod microsecond \<noteq> 0
      then Some (invalid ''lease must use PostgreSQL microsecond precision'')
      else None)"

definition validateFailure :: "Failure \<Rightarrow> error" where
  "validateFailure failure =
     (if length (Failure_Message failure) > MaxFailureBytes \<or> has_nul (Failure_Message failure) \<or>
        \<not> ValidString (Failure_Message failure)
      then Some (invalid ''failure message is invalid'')
      else if Failure_RetryAfter failure < 0 \<or> Failure_RetryAfter failure > MaxRetryDelay
      then Some (invalid ''retry delay must be between zero and 24h0m0s'')
      else if Failure_RetryAfter failure smod microsecond \<noteq> 0
      then Some (invalid ''retry delay must use PostgreSQL microsecond precision'')
      else if Failure_Permanent failure \<and> Failure_RetryAfter failure \<noteq> 0
      then Some (invalid ''permanent failure cannot carry a retry delay'')
      else None)"

text \<open>\<^verbatim>\<open>Duration.Microseconds()\<close> truncates towards zero.\<close>

definition Microseconds :: "duration \<Rightarrow> int" where
  "Microseconds d = d sdiv 1000"

lemma smod_pos: "0 \<le> (d::int) \<Longrightarrow> 0 < m \<Longrightarrow> d smod m = d mod m"
  by (simp add: signed_modulo_int_def sgn_if)

lemma sdiv_pos: "0 \<le> (d::int) \<Longrightarrow> 0 < m \<Longrightarrow> d sdiv m = d div m"
  by (simp add: signed_divide_int_def sgn_if)

lemma Microseconds_nonneg: "0 \<le> d \<Longrightarrow> Microseconds d = d div 1000"
  by (simp add: Microseconds_def sdiv_pos)

subsection \<open>What each validator accepts, and the class of every rejection\<close>

definition name_ok :: "nat \<Rightarrow> string \<Rightarrow> bool" where
  "name_ok maximum s \<longleftrightarrow> s \<noteq> [] \<and> length s \<le> maximum \<and> list_all name_char s"

lemma validateName_None [simp]: "validateName label s maximum = None \<longleftrightarrow> name_ok maximum s"
  by (auto simp: validateName_def name_ok_def)

lemma validateName_ErrInvalid: "validateName label s n = Some e \<Longrightarrow> errors_Is e ErrInvalid"
  by (auto simp: validateName_def split: if_splits)

lemma name_char_ascii: "name_char c \<Longrightarrow> 0 < ord c \<and> ord c < 128"
  by (auto simp: name_char_def ord_def)

lemma name_ok_clean: "name_ok n s \<Longrightarrow> clean_text s"
  by (rule clean_text_ascii) (auto simp: name_ok_def list_all_iff name_char_ascii)

lemma validateEnqueue_None:
  "validateEnqueue r = None \<longleftrightarrow>
     name_ok 128 (Enqueue_Queue r) \<and> name_ok 128 (Enqueue_Kind r) \<and>
     length (slice_bytes (Enqueue_Payload r)) \<le> 1048576 \<and>
     length (Enqueue_IdempotencyKey r) \<le> 256 \<and> clean_text (Enqueue_IdempotencyKey r) \<and>
     1 \<le> Enqueue_MaxAttempts r \<and> Enqueue_MaxAttempts r \<le> 100 \<and>
     (IsZero (Enqueue_AvailableAt r) \<or> isPostgreSQLTimestamp (Enqueue_AvailableAt r))"
  by (auto simp: validateEnqueue_def go_defs clean_text_def)

lemma validateClaim_None:
  "validateClaim r = None \<longleftrightarrow>
     name_ok 128 (Claim_Queue r) \<and> Claim_Worker r \<noteq> [] \<and> length (Claim_Worker r) \<le> 256 \<and>
     clean_text (Claim_Worker r) \<and> 1000000000 \<le> Claim_LeaseDuration r \<and>
     Claim_LeaseDuration r \<le> 3600000000000 \<and> Claim_LeaseDuration r mod 1000 = 0"
  by (auto simp: validateClaim_def go_defs clean_text_def smod_pos)

lemma validateFailure_None:
  "validateFailure f = None \<longleftrightarrow>
     length (Failure_Message f) \<le> 4096 \<and> clean_text (Failure_Message f) \<and>
     0 \<le> Failure_RetryAfter f \<and> Failure_RetryAfter f \<le> 86400000000000 \<and>
     Failure_RetryAfter f mod 1000 = 0 \<and> (Failure_Permanent f \<longrightarrow> Failure_RetryAfter f = 0)"
  by (auto simp: validateFailure_def go_defs clean_text_def smod_pos)

lemma validation_ErrInvalid:
  "validateEnqueue r = Some e \<Longrightarrow> errors_Is e ErrInvalid"
  "validateClaim c = Some e \<Longrightarrow> errors_Is e ErrInvalid"
  "validateFailure f = Some e \<Longrightarrow> errors_Is e ErrInvalid"
  by (auto simp: validateEnqueue_def validateClaim_def validateFailure_def or_else_Some_iff
      validateName_ErrInvalid split: if_splits)

lemma cloneEnqueue_simps [simp]:
  "Enqueue_Queue (cloneEnqueue r) = Enqueue_Queue r" "Enqueue_Kind (cloneEnqueue r) = Enqueue_Kind r"
  "Enqueue_Payload (cloneEnqueue r) = Some (slice_bytes (Enqueue_Payload r))"
  "Enqueue_IdempotencyKey (cloneEnqueue r) = Enqueue_IdempotencyKey r"
  "Enqueue_MaxAttempts (cloneEnqueue r) = Enqueue_MaxAttempts r"
  "Enqueue_AvailableAt (cloneEnqueue r) = Enqueue_AvailableAt r"
  by (simp_all add: cloneEnqueue_def)

lemma validateEnqueue_clone [simp]: "validateEnqueue (cloneEnqueue r) = validateEnqueue r"
  by (simp add: validateEnqueue_def)

section \<open>Request fingerprint\<close>

text \<open>
  \<^verbatim>\<open>binary.BigEndian.PutUint64\<close> and \<^verbatim>\<open>PutUint32\<close>: the \<open>n\<close> low bytes of a word,
  most significant first. A write to the hash appends to its input, so the fingerprint is
  the hash of the concatenated writes, \<open>fingerprint_input\<close>.
\<close>

definition be_bytes :: "nat \<Rightarrow> 'a::len word \<Rightarrow> bytes" where
  "be_bytes n w = map (\<lambda>i. ucast (drop_bit (8 * i) w)) (rev [0..<n])"

definition PutUint64 :: "64 word \<Rightarrow> bytes" where
  "PutUint64 w = be_bytes 8 w"

definition PutUint32 :: "32 word \<Rightarrow> bytes" where
  "PutUint32 w = be_bytes 4 w"

definition writeFingerprintField :: "bytes \<Rightarrow> bytes" where
  "writeFingerprintField field = PutUint64 (word_of_nat (length field)) @ field"

definition fingerprint_input :: "EnqueueRequest \<Rightarrow> bytes" where
  "fingerprint_input request =
     writeFingerprintField (bytes_of_string (Enqueue_Queue request)) @
     writeFingerprintField (bytes_of_string (Enqueue_Kind request)) @
     writeFingerprintField (slice_bytes (Enqueue_Payload request)) @
     PutUint64 (word_of_int (Enqueue_MaxAttempts request)) @
     (if IsZero (Enqueue_AvailableAt request) then [0]
      else [1] @ PutUint64 (word_of_int (unix_sec (Enqueue_AvailableAt request))) @
           PutUint32 (word_of_nat (nanos (Enqueue_AvailableAt request))))"

definition requestFingerprint :: "(bytes \<Rightarrow> bytes) \<Rightarrow> EnqueueRequest \<Rightarrow> bytes" where
  "requestFingerprint sha256 request = sha256 (fingerprint_input request)"

lemma length_be_bytes [simp]: "length (be_bytes n w) = n"
  by (simp add: be_bytes_def)

lemma length_PutUint [simp]: "length (PutUint64 v) = 8" "length (PutUint32 w) = 4"
  by (simp_all add: PutUint64_def PutUint32_def)

lemma be_bytes_inject:
  fixes v w :: "'a::len word"
  assumes "be_bytes n v = be_bytes n w" "LENGTH('a) \<le> 8 * n"
  shows "v = w"
proof (rule bit_word_eqI)
  fix k assume k: "k < LENGTH('a)"
  from assms(1) have eq: "(ucast (drop_bit (8 * i) v) :: byte) = ucast (drop_bit (8 * i) w)"
    if "i < n" for i
    using that by (auto simp: be_bytes_def rev_map)
  have "k div 8 < n" using k assms(2) by auto
  then have "bit (ucast (drop_bit (8 * (k div 8)) v) :: byte) (k mod 8) =
      bit (ucast (drop_bit (8 * (k div 8)) w) :: byte) (k mod 8)"
    by (simp only: eq)
  then show "bit v k = bit w k"
    by (simp add: bit_simps)
qed

lemma PutUint64_inject [simp]: "PutUint64 v = PutUint64 w \<longleftrightarrow> v = w"
  by (auto simp: PutUint64_def dest: be_bytes_inject)

lemma PutUint32_inject [simp]: "PutUint32 v = PutUint32 w \<longleftrightarrow> v = w"
  by (auto simp: PutUint32_def dest: be_bytes_inject)

lemma word_of_nat_inject_less:
  "a < 2 ^ LENGTH('a) \<Longrightarrow> b < 2 ^ LENGTH('a) \<Longrightarrow> (word_of_nat a :: 'a::len word) = word_of_nat b \<longleftrightarrow> a = b"
  by (metis mod_less unat_of_nat)

lemma word_of_int_inject_signed:
  fixes a b :: int
  assumes "- (2 ^ 63) \<le> a" "a < 2 ^ 63" "- (2 ^ 63) \<le> b" "b < 2 ^ 63"
  shows "(word_of_int a :: 64 word) = word_of_int b \<longleftrightarrow> a = b"
proof
  assume "(word_of_int a :: 64 word) = word_of_int b"
  then have "uint (word_of_int a :: 64 word) = uint (word_of_int b :: 64 word)" by simp
  then have "a mod 2 ^ 64 = b mod 2 ^ 64" by (simp add: uint_word_of_int)
  then have "2 ^ 64 dvd a - b" by (simp add: mod_eq_dvd_iff)
  then obtain k where "a - b = 2 ^ 64 * k" by (auto elim: dvdE)
  moreover have "- (2 ^ 64) < a - b" "a - b < 2 ^ 64" using assms by simp_all
  ultimately have "k = 0" by auto
  with \<open>a - b = 2 ^ 64 * k\<close> show "a = b" by simp
qed simp

text \<open>Length-prefix framing: one field and what follows it can be read back.\<close>

lemma writeFingerprintField_inject:
  assumes "length f < 2 ^ 64" "length g < 2 ^ 64"
    "writeFingerprintField f @ r = writeFingerprintField g @ s"
  shows "f = g \<and> r = s"
proof -
  from assms(3) have "PutUint64 (word_of_nat (length f)) = PutUint64 (word_of_nat (length g))"
    and rest: "f @ r = g @ s"
    by (simp_all add: writeFingerprintField_def)
  then have "length f = length g"
    using assms(1,2) word_of_nat_inject_less [where 'a = 64] by simp
  with rest show ?thesis by simp
qed

text \<open>
  Two requests mean the same job when every field but the idempotency key agrees; a nil
  payload is an empty one, and two zero availabilities agree whatever their location.
\<close>

definition same_request :: "EnqueueRequest \<Rightarrow> EnqueueRequest \<Rightarrow> bool" where
  "same_request r r' \<longleftrightarrow>
     Enqueue_Queue r = Enqueue_Queue r' \<and> Enqueue_Kind r = Enqueue_Kind r' \<and>
     slice_bytes (Enqueue_Payload r) = slice_bytes (Enqueue_Payload r') \<and>
     Enqueue_MaxAttempts r = Enqueue_MaxAttempts r' \<and>
     unix_sec (Enqueue_AvailableAt r) = unix_sec (Enqueue_AvailableAt r') \<and>
     nanos (Enqueue_AvailableAt r) = nanos (Enqueue_AvailableAt r')"

lemma isPostgreSQLTimestamp_sec:
  assumes "isPostgreSQLTimestamp t"
  shows "- (2 ^ 63) \<le> unix_sec t" "unix_sec t < 2 ^ 63"
  using assms
  by (auto simp: isPostgreSQLTimestamp_def Before_def After_def minimum_value maximum_value)

text \<open>The availability suffix of the input determines the instant.\<close>

lemma availability_suffix_inject:
  assumes "IsZero t \<or> isPostgreSQLTimestamp t" "IsZero u \<or> isPostgreSQLTimestamp u"
    "time_ok t" "time_ok u"
    "(if IsZero t then [0] else [1] @ PutUint64 (word_of_int (unix_sec t)) @ PutUint32 (word_of_nat (nanos t))) =
     (if IsZero u then [0] else [1] @ PutUint64 (word_of_int (unix_sec u)) @ PutUint32 (word_of_nat (nanos u)))"
  shows "unix_sec t = unix_sec u \<and> nanos t = nanos u"
proof (cases "IsZero t")
  case True
  with assms(5) have "IsZero u" by (auto split: if_splits)
  with True show ?thesis by (simp add: IsZero_def)
next
  case False
  with assms(5) have u: "\<not> IsZero u" by (auto split: if_splits)
  with False assms have "isPostgreSQLTimestamp t" "isPostgreSQLTimestamp u" by auto
  note ranges = isPostgreSQLTimestamp_sec [OF this(1)] isPostgreSQLTimestamp_sec [OF this(2)]
  from False u assms(5) have "(word_of_int (unix_sec t) :: 64 word) = word_of_int (unix_sec u)"
    "(word_of_nat (nanos t) :: 32 word) = word_of_nat (nanos u)"
    by auto
  with ranges show ?thesis
    using word_of_int_inject_signed word_of_nat_inject_less [where 'a = 32] assms(3,4)
    by (simp add: time_ok_def)
qed

lemma fingerprint_input_same:
  "same_request r r' \<Longrightarrow> fingerprint_input r = fingerprint_input r'"
  by (simp add: fingerprint_input_def same_request_def IsZero_def)

lemma fingerprint_input_inject:
  assumes "validateEnqueue r = None" "validateEnqueue r' = None"
    "time_ok (Enqueue_AvailableAt r)" "time_ok (Enqueue_AvailableAt r')"
    "fingerprint_input r = fingerprint_input r'"
  shows "same_request r r'"
proof -
  note v = assms(1,2) [unfolded validateEnqueue_None name_ok_def]
  note eq = assms(5) [unfolded fingerprint_input_def]
  have l: "length (bytes_of_string (Enqueue_Queue x)) < 2 ^ 64" "length (bytes_of_string (Enqueue_Kind x)) < 2 ^ 64"
    "length (slice_bytes (Enqueue_Payload x)) < 2 ^ 64" if "x = r \<or> x = r'" for x
    using that v by auto
  note q = writeFingerprintField_inject [OF l(1) l(1) eq, simplified]
  then have 1: "Enqueue_Queue r = Enqueue_Queue r'" by simp
  note k = writeFingerprintField_inject [OF l(2) l(2) q [THEN conjunct2], simplified]
  then have 2: "Enqueue_Kind r = Enqueue_Kind r'" by simp
  note p = writeFingerprintField_inject [OF l(3) l(3) k [THEN conjunct2], simplified]
  then have 3: "slice_bytes (Enqueue_Payload r) = slice_bytes (Enqueue_Payload r')" by simp
  from p have "(word_of_int (Enqueue_MaxAttempts r) :: 64 word) = word_of_int (Enqueue_MaxAttempts r')"
    and suffix: "(if IsZero (Enqueue_AvailableAt r) then [0] else [1] @
        PutUint64 (word_of_int (unix_sec (Enqueue_AvailableAt r))) @
        PutUint32 (word_of_nat (nanos (Enqueue_AvailableAt r)))) =
      (if IsZero (Enqueue_AvailableAt r') then [0] else [1] @
        PutUint64 (word_of_int (unix_sec (Enqueue_AvailableAt r'))) @
        PutUint32 (word_of_nat (nanos (Enqueue_AvailableAt r'))))"
    by simp_all
  then have "Enqueue_MaxAttempts r = Enqueue_MaxAttempts r'"
    using v by (simp add: word_of_int_inject_signed)
  with 1 2 3 availability_suffix_inject [OF _ _ assms(3,4) suffix] v show ?thesis
    by (simp add: same_request_def)
qed

text \<open>
  C29. The fingerprint framing is unambiguous: for two requests the library admits, the
  bytes fed to the hash are equal exactly when the requests agree on queue, kind, payload,
  attempt budget and availability. Fields cannot be shifted into one another, and a
  scheduled availability is never confused with an absent one.
\<close>

theorem fingerprint_binds_request:
  assumes "validateEnqueue r = None" "validateEnqueue r' = None"
    "time_ok (Enqueue_AvailableAt r)" "time_ok (Enqueue_AvailableAt r')"
  shows "fingerprint_input r = fingerprint_input r' \<longleftrightarrow> same_request r r'"
  using fingerprint_input_inject [OF assms] fingerprint_input_same by blast

theorem fingerprint_binds_request_witness:
  "let r = \<lparr>Enqueue_Queue = ''ab'', Enqueue_Kind = ''c'', Enqueue_Payload = None, Enqueue_IdempotencyKey = '''',
             Enqueue_MaxAttempts = 2, Enqueue_AvailableAt = zero_time\<rparr>
   in fingerprint_input r \<noteq> fingerprint_input (r\<lparr>Enqueue_Queue := ''a'', Enqueue_Kind := ''bc''\<rparr>)"
proof -
  let ?r = "\<lparr>Enqueue_Queue = ''ab'', Enqueue_Kind = ''c'', Enqueue_Payload = None, Enqueue_IdempotencyKey = '''',
    Enqueue_MaxAttempts = 2, Enqueue_AvailableAt = zero_time\<rparr>"
  let ?r' = "?r\<lparr>Enqueue_Queue := ''a'', Enqueue_Kind := ''bc''\<rparr>"
  have "validateEnqueue ?r = None" "validateEnqueue ?r' = None"
    by (simp_all add: validateEnqueue_None name_ok_def name_char_def ord_def IsZero_def zero_time_def)
  moreover have "time_ok (Enqueue_AvailableAt ?r)" "time_ok (Enqueue_AvailableAt ?r')"
    by (simp_all add: time_ok_def zero_time_def)
  ultimately show ?thesis using fingerprint_binds_request [of ?r ?r'] by (simp add: same_request_def)
qed

section \<open>Opaque identifiers\<close>

text \<open>
  \<^verbatim>\<open>io.ReadFull\<close> on a reader that still yields \<open>reader_bytes\<close> and then reports
  \<open>reader_error\<close>, where an end of file after some bytes is unexpected; \<^verbatim>\<open>hex.EncodeToString\<close>; and \<^verbatim>\<open>isLowerHex\<close> of \<^verbatim>\<open>rows.go\<close>.
\<close>

record io_reader =
  reader_bytes :: bytes
  reader_error :: go_error

definition ReadFull :: "io_reader \<Rightarrow> nat \<Rightarrow> bytes result" where
  "ReadFull source n =
     (if n \<le> length (reader_bytes source) then Inr (take n (reader_bytes source))
      else if reader_bytes source \<noteq> [] \<and> reader_error source = Sentinel io_EOF
      then Inl (Sentinel io_ErrUnexpectedEOF)
      else Inl (reader_error source))"

definition hex_digit :: "nat \<Rightarrow> char" where
  "hex_digit n = ''0123456789abcdef'' ! n"

definition EncodeToString :: "bytes \<Rightarrow> string" where
  "EncodeToString bs = concat (map (\<lambda>b. [hex_digit (unat b div 16), hex_digit (unat b mod 16)]) bs)"

definition newOpaqueID :: "io_reader \<Rightarrow> nat \<Rightarrow> string result" where
  "newOpaqueID source n =
     (case ReadFull source n of
        Inl err \<Rightarrow> Inl (errorf_wrap ''generate opaque identifier'' err)
      | Inr buffer \<Rightarrow> Inr (EncodeToString buffer))"

definition newJobID :: "io_reader \<Rightarrow> string result" where
  "newJobID rand = newOpaqueID rand 16"

definition newLeaseToken :: "io_reader \<Rightarrow> string result" where
  "newLeaseToken rand = newOpaqueID rand 32"

definition lower_hex_char :: "char \<Rightarrow> bool" where
  "lower_hex_char c \<longleftrightarrow>
     \<not> ((ord c < ord (CHR ''0'') \<or> ord c > ord (CHR ''9'')) \<and>
        (ord c < ord (CHR ''a'') \<or> ord c > ord (CHR ''f'')))"

definition isLowerHex :: "string \<Rightarrow> bool" where
  "isLowerHex value = list_all lower_hex_char value"

lemma hex_digit_lower: "n < 16 \<Longrightarrow> lower_hex_char (hex_digit n)"
  by (simp add: less_Suc_eq numeral_eq_Suc hex_digit_def lower_hex_char_def ord_def) (elim disjE; simp)

lemma hex_digit_inject: "m < 16 \<Longrightarrow> n < 16 \<Longrightarrow> hex_digit m = hex_digit n \<longleftrightarrow> m = n"
  unfolding hex_digit_def by (subst nth_eq_iff_index_eq) simp_all

lemma EncodeToString_simps [simp]:
  "EncodeToString [] = []"
  "EncodeToString (b # bs) = hex_digit (unat b div 16) # hex_digit (unat b mod 16) # EncodeToString bs"
  by (simp_all add: EncodeToString_def)

lemma unat_byte_div: "unat (b::byte) div 16 < 16"
  using unsigned_less [of b, where 'a = nat] by simp

lemma length_EncodeToString [simp]: "length (EncodeToString bs) = 2 * length bs"
  by (induction bs) simp_all

lemma isLowerHex_EncodeToString: "isLowerHex (EncodeToString bs)"
  by (induction bs) (simp_all add: isLowerHex_def hex_digit_lower unat_byte_div)

lemma EncodeToString_inject: "EncodeToString bs = EncodeToString cs \<longleftrightarrow> bs = cs"
proof (induction bs arbitrary: cs)
  case (Cons b bs)
  show ?case
  proof (cases cs)
    case (Cons c cs')
    have "b = c" if "unat b div 16 = unat c div 16" "unat b mod 16 = unat c mod 16"
      using that by (metis div_mult_mod_eq word_unat_eq_iff)
    with Cons show ?thesis
      by (auto simp: hex_digit_inject unat_byte_div Cons.IH)
  qed simp
qed (case_tac cs; simp)

definition job_id_ok :: "string \<Rightarrow> bool" where
  "job_id_ok s \<longleftrightarrow> length s = 32 \<and> isLowerHex s"

definition token_ok :: "string \<Rightarrow> bool" where
  "token_ok s \<longleftrightarrow> length s = 64 \<and> isLowerHex s"

lemma newJobID_ok: "newJobID rand = Inr s \<Longrightarrow> job_id_ok s"
  by (auto simp: newJobID_def newOpaqueID_def ReadFull_def job_id_ok_def isLowerHex_EncodeToString
      split: if_splits)

lemma newLeaseToken_ok: "newLeaseToken rand = Inr s \<Longrightarrow> token_ok s"
  by (auto simp: newLeaseToken_def newOpaqueID_def ReadFull_def token_ok_def isLowerHex_EncodeToString
      split: if_splits)

lemma lower_hex_ascii: "lower_hex_char c \<Longrightarrow> 0 < ord c \<and> ord c < 128"
  by (auto simp: lower_hex_char_def ord_def)

lemma isLowerHex_clean: "isLowerHex s \<Longrightarrow> clean_text s"
  by (rule clean_text_ascii) (auto simp: isLowerHex_def list_all_iff lower_hex_ascii)

text \<open>
  C35. Opaque identifiers are faithful to their randomness: two identifiers of the same
  size are equal exactly when the random bytes drawn are, so 128-bit job ids and 256-bit
  lease tokens lose no entropy; they are lower-case hexadecimal of exactly twice the size;
  and a source that ends early is an error, never a short identifier.
\<close>

theorem opaque_identifiers:
  "(newOpaqueID source n = Inr i \<and> newOpaqueID source' n = Inr i' \<longrightarrow>
      (i = i' \<longleftrightarrow> take n (reader_bytes source) = take n (reader_bytes source')) \<and>
      length i = 2 * n \<and> isLowerHex i) \<and>
   ((\<exists>e. newOpaqueID source n = Inl e) \<longleftrightarrow> length (reader_bytes source) < n)"
  using isLowerHex_EncodeToString [of "[]"]
  by (auto simp: newOpaqueID_def ReadFull_def EncodeToString_inject isLowerHex_EncodeToString split: if_splits)

theorem opaque_identifiers_witness:
  "newOpaqueID \<lparr>reader_bytes = [1, 255], reader_error = Sentinel io_EOF\<rparr> 2 = Inr ''01ff'' \<and> isLowerHex ''01ff''"
proof -
  let ?s = "\<lparr>reader_bytes = [1, 255], reader_error = Sentinel io_EOF\<rparr>"
  have "newOpaqueID ?s 2 = Inr ''01ff''"
    by (simp add: newOpaqueID_def ReadFull_def hex_digit_def)
  with opaque_identifiers [of ?s 2 "''01ff''" ?s "''01ff''"] show ?thesis by blast
qed

end
