(* ===== verification/Schema.thy ===== *)
theory Schema
  imports Values
begin

text \<open>
  The table of \<^verbatim>\<open>migrations/000001_jobs.sql\<close>: a row with its typed columns
  (\<^const>\<open>None\<close> is SQL NULL in the four nullable columns), every named CHECK constraint,
  the primary key and the unique idempotency index. \<open>server_accepts\<close> adds what
  PostgreSQL itself demands of a value of type \<^verbatim>\<open>text\<close> in a UTF-8 database (valid
  UTF-8, no NUL) and of type \<^verbatim>\<open>timestamptz\<close> (the finite range).
\<close>

section \<open>Rows and constraints\<close>

record row =
  c_id :: string
  c_queue :: string
  c_kind :: string
  c_payload :: bytes
  c_idempotency_key :: "string option"
  c_request_fingerprint :: bytes
  c_state :: string
  c_attempts :: int
  c_max_attempts :: int
  c_available_at :: timestamptz
  c_created_at :: timestamptz
  c_updated_at :: timestamptz
  c_lease_token :: "string option"
  c_lease_owner :: "string option"
  c_lease_until :: "timestamptz option"
  c_last_error :: string
  c_finished_at :: "timestamptz option"

type_synonym db = "row list"

definition between :: "'a::ord \<Rightarrow> 'a \<Rightarrow> 'a \<Rightarrow> bool" where
  "between x lo hi \<longleftrightarrow> lo \<le> x \<and> x \<le> hi"

definition hex_format :: "nat \<Rightarrow> string \<Rightarrow> bool" where
  "hex_format n s \<longleftrightarrow> length s = n \<and> isLowerHex s"

definition gotth_jobs_id_format :: "row \<Rightarrow> bool" where
  "gotth_jobs_id_format r = hex_format 32 (c_id r)"

definition gotth_jobs_queue_length :: "row \<Rightarrow> bool" where
  "gotth_jobs_queue_length r = between (length (c_queue r)) 1 128"

definition gotth_jobs_kind_length :: "row \<Rightarrow> bool" where
  "gotth_jobs_kind_length r = between (length (c_kind r)) 1 128"

definition gotth_jobs_payload_length :: "row \<Rightarrow> bool" where
  "gotth_jobs_payload_length r \<longleftrightarrow> length (c_payload r) \<le> 1048576"

definition gotth_jobs_key_length :: "row \<Rightarrow> bool" where
  "gotth_jobs_key_length r =
     (case c_idempotency_key r of None \<Rightarrow> True | Some k \<Rightarrow> between (length k) 1 256)"

definition gotth_jobs_fingerprint_length :: "row \<Rightarrow> bool" where
  "gotth_jobs_fingerprint_length r \<longleftrightarrow> length (c_request_fingerprint r) = 32"

definition gotth_jobs_state :: "row \<Rightarrow> bool" where
  "gotth_jobs_state r \<longleftrightarrow> c_state r \<in> set [''pending'', ''running'', ''succeeded'', ''dead'', ''canceled'']"

definition gotth_jobs_attempts :: "row \<Rightarrow> bool" where
  "gotth_jobs_attempts r = between (c_attempts r) 0 100"

definition gotth_jobs_max_attempts :: "row \<Rightarrow> bool" where
  "gotth_jobs_max_attempts r \<longleftrightarrow> between (c_max_attempts r) 1 100 \<and> c_attempts r \<le> c_max_attempts r"

definition gotth_jobs_state_attempt_shape :: "row \<Rightarrow> bool" where
  "gotth_jobs_state_attempt_shape r \<longleftrightarrow>
     (c_state r = ''pending'' \<and> c_attempts r < c_max_attempts r) \<or>
     (c_state r \<in> set [''running'', ''succeeded'', ''dead''] \<and> c_attempts r \<ge> 1) \<or>
     c_state r = ''canceled''"

definition gotth_jobs_lease_shape :: "row \<Rightarrow> bool" where
  "gotth_jobs_lease_shape r \<longleftrightarrow>
     (c_state r = ''running'' \<and> c_lease_token r \<noteq> None \<and> c_lease_owner r \<noteq> None \<and> c_lease_until r \<noteq> None) \<or>
     (c_state r \<noteq> ''running'' \<and> c_lease_token r = None \<and> c_lease_owner r = None \<and> c_lease_until r = None)"

definition gotth_jobs_lease_token_length :: "row \<Rightarrow> bool" where
  "gotth_jobs_lease_token_length r =
     (case c_lease_token r of None \<Rightarrow> True | Some t \<Rightarrow> hex_format 64 t)"

definition gotth_jobs_worker_length :: "row \<Rightarrow> bool" where
  "gotth_jobs_worker_length r =
     (case c_lease_owner r of None \<Rightarrow> True | Some w \<Rightarrow> between (length w) 1 256)"

definition gotth_jobs_failure_length :: "row \<Rightarrow> bool" where
  "gotth_jobs_failure_length r \<longleftrightarrow> length (c_last_error r) \<le> 4096"

definition gotth_jobs_finished_shape :: "row \<Rightarrow> bool" where
  "gotth_jobs_finished_shape r \<longleftrightarrow>
     (c_state r \<in> set [''succeeded'', ''dead'', ''canceled''] \<and> c_finished_at r \<noteq> None) \<or>
     (c_state r \<in> set [''pending'', ''running''] \<and> c_finished_at r = None)"

definition gotth_jobs_checks :: "row \<Rightarrow> bool" where
  "gotth_jobs_checks r \<longleftrightarrow>
     gotth_jobs_id_format r \<and> gotth_jobs_queue_length r \<and> gotth_jobs_kind_length r \<and>
     gotth_jobs_payload_length r \<and> gotth_jobs_key_length r \<and> gotth_jobs_fingerprint_length r \<and>
     gotth_jobs_state r \<and> gotth_jobs_attempts r \<and> gotth_jobs_max_attempts r \<and>
     gotth_jobs_state_attempt_shape r \<and> gotth_jobs_lease_shape r \<and>
     gotth_jobs_lease_token_length r \<and> gotth_jobs_worker_length r \<and>
     gotth_jobs_failure_length r \<and> gotth_jobs_finished_shape r"

lemmas checks_defs =
  gotth_jobs_checks_def gotth_jobs_id_format_def gotth_jobs_queue_length_def
  gotth_jobs_kind_length_def gotth_jobs_payload_length_def gotth_jobs_key_length_def
  gotth_jobs_fingerprint_length_def gotth_jobs_state_def gotth_jobs_attempts_def
  gotth_jobs_max_attempts_def gotth_jobs_state_attempt_shape_def gotth_jobs_lease_shape_def
  gotth_jobs_lease_token_length_def gotth_jobs_worker_length_def gotth_jobs_failure_length_def
  gotth_jobs_finished_shape_def

definition opt_all :: "('a \<Rightarrow> bool) \<Rightarrow> 'a option \<Rightarrow> bool" where
  "opt_all p x = (case x of None \<Rightarrow> True | Some y \<Rightarrow> p y)"

lemma opt_all_simps [simp]: "opt_all p None" "opt_all p (Some y) = p y"
  by (simp_all add: opt_all_def)

definition server_accepts :: "row \<Rightarrow> bool" where
  "server_accepts r \<longleftrightarrow>
     clean_text (c_id r) \<and> clean_text (c_queue r) \<and> clean_text (c_kind r) \<and>
     opt_all clean_text (c_idempotency_key r) \<and> clean_text (c_state r) \<and>
     opt_all clean_text (c_lease_token r) \<and> opt_all clean_text (c_lease_owner r) \<and>
     clean_text (c_last_error r) \<and>
     pg_finite (c_available_at r) \<and> pg_finite (c_created_at r) \<and> pg_finite (c_updated_at r) \<and>
     opt_all pg_finite (c_lease_until r) \<and> opt_all pg_finite (c_finished_at r)"

section \<open>Keys\<close>

text \<open>
  \<^verbatim>\<open>PRIMARY KEY (id)\<close> and the non-partial unique index on \<^verbatim>\<open>(queue, idempotency_key)\<close>;
  NULL keys are distinct from each other.
\<close>

definition primary_key :: "db \<Rightarrow> bool" where
  "primary_key db = distinct (map c_id db)"

definition key_conflict :: "string \<Rightarrow> string option \<Rightarrow> row \<Rightarrow> bool" where
  "key_conflict q k r \<longleftrightarrow> k \<noteq> None \<and> c_queue r = q \<and> c_idempotency_key r = k"

definition gotth_jobs_idempotency :: "db \<Rightarrow> bool" where
  "gotth_jobs_idempotency db \<longleftrightarrow>
     distinct (map (\<lambda>r. (c_queue r, c_idempotency_key r)) (filter (\<lambda>r. c_idempotency_key r \<noteq> None) db))"

text \<open>The row a primary-key predicate selects.\<close>

definition find_row :: "string \<Rightarrow> db \<Rightarrow> row option" where
  "find_row i db = List.find (\<lambda>r. c_id r = i) db"

lemma find_row_Some: "find_row i db = Some r \<Longrightarrow> r \<in> set db \<and> c_id r = i"
  by (auto simp: find_row_def find_Some_iff in_set_conv_nth)

lemma find_row_None: "find_row i db = None \<longleftrightarrow> i \<notin> c_id ` set db"
  by (auto simp: find_row_def find_None_iff)

lemma find_row_member:
  "primary_key db \<Longrightarrow> r \<in> set db \<Longrightarrow> find_row (c_id r) db = Some r"
proof (induction db)
  case (Cons s db)
  then show ?case by (auto simp: primary_key_def find_row_def)
qed simp

lemma primary_key_eq:
  "primary_key db \<Longrightarrow> r \<in> set db \<Longrightarrow> s \<in> set db \<Longrightarrow> c_id r = c_id s \<Longrightarrow> r = s"
  by (metis find_row_member option.inject)

lemma filter_id_find:
  assumes "primary_key db"
  shows "filter (\<lambda>r. c_id r = i \<and> p r) db = (case find_row i db of Some r \<Rightarrow> if p r then [r] else [] | None \<Rightarrow> [])"
  using assms
proof (induction db)
  case (Cons s db)
  have n: "find_row (c_id s) db = None" using Cons.prems by (simp add: primary_key_def find_row_None)
  have "find_row i (s # db) = (if c_id s = i then Some s else find_row i db)"
    by (simp add: find_row_def)
  with Cons n show ?case by (auto simp: primary_key_def split: option.splits)
qed (simp add: find_row_def)

end
