(* ===== verification/Rows.thy ===== *)
theory Rows
  imports Schema
begin

text \<open>
  \<^verbatim>\<open>rows.go\<close>: decoding an untrusted row. A \<open>raw_row\<close> is what the driver hands to
  \<^verbatim>\<open>Scan\<close>, any column possibly NULL, whatever the schema says; a \<^verbatim>\<open>pgx.Row\<close> is a
  raw row or the error the driver reports (\<^verbatim>\<open>pgx.ErrNoRows\<close> when there is none).
  The lemmas show that only jobs meeting the whole stored-job contract leave the scanner,
  and that every row the library itself writes (\<open>row_ok\<close>) is decoded faithfully.
\<close>

section \<open>Columns and query arguments\<close>

text \<open>
  The types of \<^verbatim>\<open>pgtype\<close> and the formats of the wire protocol the sources name.
\<close>

datatype pg_oid = TextOID | ByteaOID | Int4OID | TimestamptzOID | OtherOID nat

datatype format_code = TextFormatCode | BinaryFormatCode

text \<open>\<^verbatim>\<open>jobColumns\<close> in order, each with the type the migration declares for it.\<close>

definition jobColumns :: "(string \<times> pg_oid) list" where
  "jobColumns = [(''id'', TextOID), (''queue'', TextOID), (''kind'', TextOID), (''payload'', ByteaOID),
     (''idempotency_key'', TextOID), (''state'', TextOID), (''attempts'', Int4OID), (''max_attempts'', Int4OID),
     (''available_at'', TimestamptzOID), (''created_at'', TimestamptzOID), (''updated_at'', TimestamptzOID),
     (''lease_token'', TextOID), (''lease_owner'', TextOID), (''lease_until'', TimestamptzOID),
     (''last_error'', TextOID), (''finished_at'', TimestamptzOID)]"

definition qualifiedJobColumns :: "(string \<times> pg_oid) list" where
  "qualifiedJobColumns = [(''job.id'', TextOID), (''job.queue'', TextOID), (''job.kind'', TextOID),
     (''job.payload'', ByteaOID), (''job.idempotency_key'', TextOID), (''job.state'', TextOID),
     (''job.attempts'', Int4OID), (''job.max_attempts'', Int4OID), (''job.available_at'', TimestamptzOID),
     (''job.created_at'', TimestamptzOID), (''job.updated_at'', TimestamptzOID), (''job.lease_token'', TextOID),
     (''job.lease_owner'', TextOID), (''job.lease_until'', TimestamptzOID), (''job.last_error'', TextOID),
     (''job.finished_at'', TimestamptzOID)]"

definition jobResultFormats :: "pg_oid \<rightharpoonup> format_code" where
  "jobResultFormats = [TextOID \<mapsto> BinaryFormatCode, ByteaOID \<mapsto> BinaryFormatCode,
     Int4OID \<mapsto> BinaryFormatCode, TimestamptzOID \<mapsto> BinaryFormatCode]"

datatype exec_mode = QueryExecModeDescribeExec | OtherExecMode

text \<open>An element of the \<^verbatim>\<open>[]any\<close>: an option of pgx, or an argument of the statement.\<close>

datatype 'a query_argument = ExecMode exec_mode | ResultFormats "pg_oid \<rightharpoonup> format_code" | Argument 'a

definition jobQueryArguments :: "'a list \<Rightarrow> 'a query_argument list" where
  "jobQueryArguments arguments =
     [ExecMode QueryExecModeDescribeExec, ResultFormats jobResultFormats] @ map Argument arguments"

text \<open>
  Every column of a job query, qualified or not, and the leading fingerprint of an
  idempotency row has a type whose values are requested in binary: the scanners below get
  raw bytes and never the text rendering of a value, which for \<^verbatim>\<open>bytea\<close> is twice as long.
  The statement's own arguments follow unchanged.
\<close>

lemma job_columns_binary:
  "list_all (\<lambda>(name, oid). jobResultFormats oid = Some BinaryFormatCode)
     ((''request_fingerprint'', ByteaOID) # jobColumns)"
  "map (\<lambda>(name, oid). (''job.'' @ name, oid)) jobColumns = qualifiedJobColumns"
  "[a. Argument a \<leftarrow> jobQueryArguments arguments] = arguments"
proof -
  have "[a. Argument a \<leftarrow> map Argument xs] = xs" for xs :: "'a list" by (induction xs) simp_all
  then show "[a. Argument a \<leftarrow> jobQueryArguments arguments] = arguments" by (simp add: jobQueryArguments_def)
qed (simp_all add: jobResultFormats_def jobColumns_def qualifiedJobColumns_def)

section \<open>Scanners\<close>

record raw_row =
  raw_fingerprint :: "bytes option"
  raw_id :: "string option"
  raw_queue :: "string option"
  raw_kind :: "string option"
  raw_payload :: "bytes option"
  raw_key :: "string option"
  raw_state :: "string option"
  raw_attempts :: "int option"
  raw_max_attempts :: "int option"
  raw_available_at :: "timestamptz option"
  raw_created_at :: "timestamptz option"
  raw_updated_at :: "timestamptz option"
  raw_lease_token :: "string option"
  raw_lease_owner :: "string option"
  raw_lease_until :: "timestamptz option"
  raw_last_error :: "string option"
  raw_finished_at :: "timestamptz option"

type_synonym pgx_row = "raw_row result"

definition bindr :: "'a result \<Rightarrow> ('a \<Rightarrow> 'b result) \<Rightarrow> 'b result" where
  "bindr m f = (case m of Inl e \<Rightarrow> Inl e | Inr x \<Rightarrow> f x)"

lemma bindr_simps [simp]: "bindr (Inl e) f = Inl e" "bindr (Inr x) f = f x"
  by (simp_all add: bindr_def)

lemma bindr_Inr_iff: "bindr m f = Inr y \<longleftrightarrow> (\<exists>x. m = Inr x \<and> f x = Inr y)"
  by (simp add: bindr_def split: sum.splits)

record boundedBytesScanner =
  bs_label :: string
  bs_minimum :: nat
  bs_maximum :: nat

record boundedTextScanner =
  ts_label :: string
  ts_minimum :: nat
  ts_maximum :: nat
  ts_nullable :: bool

definition ScanBytes :: "boundedBytesScanner \<Rightarrow> bytes option \<Rightarrow> bytes result" where
  "ScanBytes scanner source =
     (case source of
        None \<Rightarrow> Inl (Opaque (''stored job '' @ bs_label scanner @ '' is NULL''))
      | Some b \<Rightarrow>
          if length b < bs_minimum scanner \<or> length b > bs_maximum scanner
          then Inl (Opaque (''stored job '' @ bs_label scanner @ '' violates the schema length contract''))
          else Inr b)"

text \<open>The text scanner also reports whether a value was present.\<close>

definition ScanText :: "boundedTextScanner \<Rightarrow> string option \<Rightarrow> (bool \<times> string) result" where
  "ScanText scanner source =
     (case source of
        None \<Rightarrow> if ts_nullable scanner then Inr (False, '''')
                else Inl (Opaque (''stored job '' @ ts_label scanner @ '' is NULL''))
      | Some s \<Rightarrow>
          if length s < ts_minimum scanner \<or> length s > ts_maximum scanner
          then Inl (Opaque (''stored job '' @ ts_label scanner @ '' violates the schema length contract''))
          else Inr (True, s))"

definition text_scanner :: "string \<Rightarrow> nat \<Rightarrow> nat \<Rightarrow> bool \<Rightarrow> boundedTextScanner" where
  "text_scanner label minimum maximum nullable =
     \<lparr>ts_label = label, ts_minimum = minimum, ts_maximum = maximum, ts_nullable = nullable\<rparr>"

text \<open>Scanning an \<^verbatim>\<open>int4\<close> into a Go \<^verbatim>\<open>int\<close>: NULL is an error of the driver.\<close>

definition scan_int :: "int option \<Rightarrow> int result" where
  "scan_int v = (case v of None \<Rightarrow> Inl (Opaque ''cannot scan NULL into *int'') | Some n \<Rightarrow> Inr n)"

section \<open>The stored-job contract\<close>

definition validateStoredJob :: "Job \<Rightarrow> error" where
  "validateStoredJob job =
     (if length (Job_ID job) \<noteq> 32 \<or> \<not> isLowerHex (Job_ID job)
      then Some (Opaque ''stored job ID violates the schema contract'')
      else case validateName ''stored queue'' (Job_Queue job) MaxQueueBytes of
        Some err \<Rightarrow> Some (errorf_wrap ''stored job violates the schema contract'' err)
      | None \<Rightarrow>
      case validateName ''stored kind'' (Job_Kind job) MaxKindBytes of
        Some err \<Rightarrow> Some (errorf_wrap ''stored job violates the schema contract'' err)
      | None \<Rightarrow>
      if Job_Payload job = None then Some (Opaque ''stored job payload is NULL'')
      else if length (slice_bytes (Job_Payload job)) > MaxPayloadBytes \<or>
        length (Job_IdempotencyKey job) > MaxIdempotencyKeyBytes \<or>
        length (Job_LastError job) > MaxFailureBytes \<or> Job_Attempts job < 0 \<or>
        Job_Attempts job > Job_MaxAttempts job \<or> Job_MaxAttempts job < 1 \<or>
        Job_MaxAttempts job > MaxAttempts
      then Some (Opaque ''stored job violates the schema contract'')
      else if \<not> isPostgreSQLTimestamp (Job_AvailableAt job) \<or>
        \<not> isPostgreSQLTimestamp (Job_CreatedAt job) \<or> \<not> isPostgreSQLTimestamp (Job_UpdatedAt job)
      then Some (Opaque ''stored job has invalid mandatory timestamp'')
      else if (\<not> IsZero (Job_LeaseUntil job) \<and> \<not> isPostgreSQLTimestamp (Job_LeaseUntil job)) \<or>
        (\<not> IsZero (Job_FinishedAt job) \<and> \<not> isPostgreSQLTimestamp (Job_FinishedAt job))
      then Some (Opaque ''stored job has invalid optional timestamp'')
      else if \<not> ValidString (Job_IdempotencyKey job) \<or> \<not> ValidString (Job_LeaseOwner job) \<or>
        \<not> ValidString (Job_LastError job) \<or> has_nul (Job_IdempotencyKey job) \<or>
        has_nul (Job_LeaseOwner job) \<or> has_nul (Job_LastError job)
      then Some (Opaque ''stored job has invalid text'')
      else if (Job_State job = StatePending \<and> Job_Attempts job \<ge> Job_MaxAttempts job) \<or>
        ((Job_State job = StateRunning \<or> Job_State job = StateSucceeded \<or> Job_State job = StateDead) \<and>
          Job_Attempts job = 0)
      then Some (Opaque ''stored job has invalid state and attempt combination'')
      else or_else
        (if Job_State job \<in> set [StatePending, StateSucceeded, StateDead, StateCanceled]
         then if Job_Lease job \<noteq> zero_Lease \<or> Job_LeaseOwner job \<noteq> '''' \<or> \<not> IsZero (Job_LeaseUntil job)
              then Some (Opaque ''stored non-running job has lease state'') else None
         else if Job_State job = StateRunning
         then if Lease_JobID (Job_Lease job) \<noteq> Job_ID job \<or> length (Lease_Token (Job_Lease job)) \<noteq> 64 \<or>
                \<not> isLowerHex (Lease_Token (Job_Lease job)) \<or> Job_LeaseOwner job = '''' \<or>
                length (Job_LeaseOwner job) > MaxWorkerBytes \<or> IsZero (Job_LeaseUntil job)
              then Some (Opaque ''stored running job has invalid lease state'') else None
         else Some (Sentinel errStoredJobUnknownState))
        (if (Job_State job \<in> set [StateSucceeded, StateDead, StateCanceled]) = IsZero (Job_FinishedAt job)
         then Some (Opaque ''stored job has invalid terminal timestamp state'') else None))"

text \<open>The job \<^verbatim>\<open>scanJobRow\<close> assembles once every column has been scanned.\<close>

definition assemble_job ::
  "string \<Rightarrow> string \<Rightarrow> string \<Rightarrow> bytes \<Rightarrow> bool \<times> string \<Rightarrow> string \<Rightarrow> int \<Rightarrow> int \<Rightarrow>
   timestamptz \<Rightarrow> timestamptz \<Rightarrow> timestamptz \<Rightarrow> bool \<times> string \<Rightarrow> bool \<times> string \<Rightarrow>
   timestamptz option \<Rightarrow> string \<Rightarrow> timestamptz option \<Rightarrow> Job" where
  "assemble_job i queue kind payload key state n m available created updated token owner until lasterr finished =
     \<lparr>Job_ID = i, Job_Queue = queue, Job_Kind = kind, Job_Payload = Some payload,
      Job_IdempotencyKey = (if fst key then snd key else ''''), Job_State = state,
      Job_Attempts = n, Job_MaxAttempts = m, Job_AvailableAt = time_of_pg available,
      Job_CreatedAt = time_of_pg created, Job_UpdatedAt = time_of_pg updated,
      Job_Lease = (if fst token then \<lparr>Lease_JobID = i, Lease_Token = snd token\<rparr> else zero_Lease),
      Job_LeaseOwner = (if fst owner then snd owner else ''''),
      Job_LeaseUntil = (case until of None \<Rightarrow> zero_time | Some t \<Rightarrow> time_of_pg t),
      Job_LastError = lasterr,
      Job_FinishedAt = (case finished of None \<Rightarrow> zero_time | Some t \<Rightarrow> time_of_pg t)\<rparr>"

text \<open>Lines 193--209: the present optional timestamps, then the stored-job contract.\<close>

definition check_scanned :: "raw_row \<Rightarrow> bytes \<Rightarrow> Job \<Rightarrow> (bytes \<times> Job) result" where
  "check_scanned raw fp job =
     (if raw_lease_until raw \<noteq> None \<and> \<not> isPostgreSQLTimestamp (Job_LeaseUntil job)
      then Inl (Opaque ''stored job has invalid lease timestamp'')
      else if raw_finished_at raw \<noteq> None \<and> \<not> isPostgreSQLTimestamp (Job_FinishedAt job)
      then Inl (Opaque ''stored job has invalid finished timestamp'')
      else case validateStoredJob job of Some err \<Rightarrow> Inl err | None \<Rightarrow> Inr (fp, job))"

definition scanJobRow :: "pgx_row \<Rightarrow> boundedBytesScanner option \<Rightarrow> (bytes \<times> Job) result" where
  "scanJobRow row fingerprint = bindr row (\<lambda>raw.
     bindr (case fingerprint of None \<Rightarrow> Inr [] | Some scanner \<Rightarrow> ScanBytes scanner (raw_fingerprint raw)) (\<lambda>fp.
     bindr (ScanText (text_scanner ''ID'' 32 32 False) (raw_id raw)) (\<lambda>i.
     bindr (ScanText (text_scanner ''queue'' 1 MaxQueueBytes False) (raw_queue raw)) (\<lambda>queue.
     bindr (ScanText (text_scanner ''kind'' 1 MaxKindBytes False) (raw_kind raw)) (\<lambda>kind.
     bindr (ScanBytes \<lparr>bs_label = ''payload'', bs_minimum = 0, bs_maximum = MaxPayloadBytes\<rparr> (raw_payload raw)) (\<lambda>payload.
     bindr (ScanText (text_scanner ''idempotency key'' 1 MaxIdempotencyKeyBytes True) (raw_key raw)) (\<lambda>key.
     bindr (ScanText (text_scanner ''state'' 1 (length StateSucceeded) False) (raw_state raw)) (\<lambda>state.
     bindr (scan_int (raw_attempts raw)) (\<lambda>n.
     bindr (scan_int (raw_max_attempts raw)) (\<lambda>m.
     bindr (ScanText (text_scanner ''lease token'' 64 64 True) (raw_lease_token raw)) (\<lambda>token.
     bindr (ScanText (text_scanner ''lease owner'' 1 MaxWorkerBytes True) (raw_lease_owner raw)) (\<lambda>owner.
     bindr (ScanText (text_scanner ''last error'' 0 MaxFailureBytes False) (raw_last_error raw)) (\<lambda>lasterr.
     case (raw_available_at raw, raw_created_at raw, raw_updated_at raw) of
       (Some available, Some created, Some updated) \<Rightarrow>
         check_scanned raw fp (assemble_job (snd i) (snd queue) (snd kind) payload key (snd state) n m
           available created updated token owner (raw_lease_until raw) (snd lasterr)
           (raw_finished_at raw))
     | _ \<Rightarrow> Inl (Opaque ''stored job has NULL mandatory timestamp''))))))))))))))"

definition scanJob :: "pgx_row \<Rightarrow> Job result" where
  "scanJob row = map_sum id snd (scanJobRow row None)"

definition scanJobWithFingerprint :: "pgx_row \<Rightarrow> (bytes \<times> Job) result" where
  "scanJobWithFingerprint row =
     scanJobRow row (Some \<lparr>bs_label = ''request fingerprint'', bs_minimum = 32, bs_maximum = 32\<rparr>)"

section \<open>What leaves the scanner\<close>

text \<open>The stored-job contract as one readable predicate on jobs.\<close>

definition opt_time_ok :: "go_time \<Rightarrow> bool" where
  "opt_time_ok t \<longleftrightarrow> IsZero t \<or> isPostgreSQLTimestamp t"

definition job_lease_shape :: "Job \<Rightarrow> bool" where
  "job_lease_shape j \<longleftrightarrow>
     (if Job_State j = StateRunning
      then Lease_JobID (Job_Lease j) = Job_ID j \<and> token_ok (Lease_Token (Job_Lease j)) \<and>
           Job_LeaseOwner j \<noteq> '''' \<and> length (Job_LeaseOwner j) \<le> 256 \<and> \<not> IsZero (Job_LeaseUntil j)
      else Job_Lease j = zero_Lease \<and> Job_LeaseOwner j = '''' \<and> IsZero (Job_LeaseUntil j))"

definition job_state_shape :: "Job \<Rightarrow> bool" where
  "job_state_shape j \<longleftrightarrow>
     Job_State j \<in> set known_states \<and>
     (Job_State j = StatePending \<longrightarrow> Job_Attempts j < Job_MaxAttempts j) \<and>
     (Job_State j \<in> set [StateRunning, StateSucceeded, StateDead] \<longrightarrow> 1 \<le> Job_Attempts j) \<and>
     (Job_State j \<in> set [StateSucceeded, StateDead, StateCanceled]) = (\<not> IsZero (Job_FinishedAt j))"

definition stored_job_ok :: "Job \<Rightarrow> bool" where
  "stored_job_ok j \<longleftrightarrow>
     job_id_ok (Job_ID j) \<and> name_ok 128 (Job_Queue j) \<and> name_ok 128 (Job_Kind j) \<and>
     Job_Payload j \<noteq> None \<and> length (slice_bytes (Job_Payload j)) \<le> 1048576 \<and>
     length (Job_IdempotencyKey j) \<le> 256 \<and> clean_text (Job_IdempotencyKey j) \<and>
     length (Job_LastError j) \<le> 4096 \<and> clean_text (Job_LastError j) \<and> clean_text (Job_LeaseOwner j) \<and>
     0 \<le> Job_Attempts j \<and> Job_Attempts j \<le> Job_MaxAttempts j \<and> 1 \<le> Job_MaxAttempts j \<and>
     Job_MaxAttempts j \<le> 100 \<and>
     isPostgreSQLTimestamp (Job_AvailableAt j) \<and> isPostgreSQLTimestamp (Job_CreatedAt j) \<and>
     isPostgreSQLTimestamp (Job_UpdatedAt j) \<and> opt_time_ok (Job_LeaseUntil j) \<and>
     opt_time_ok (Job_FinishedAt j) \<and> job_lease_shape j \<and> job_state_shape j"

lemma case_error_None [simp]:
  "(case x of None \<Rightarrow> k | Some e \<Rightarrow> Some (f e)) = None \<longleftrightarrow> x = None \<and> k = None"
  by (cases x) simp_all

lemma validateStoredJob_None: "validateStoredJob j = None \<longleftrightarrow> stored_job_ok j"
proof -
  let ?shape = "(Job_State j \<in> set [StatePending, StateSucceeded, StateDead, StateCanceled] \<and>
      Job_Lease j = zero_Lease \<and> Job_LeaseOwner j = '''' \<and> IsZero (Job_LeaseUntil j)) \<or>
    (Job_State j = StateRunning \<and> Lease_JobID (Job_Lease j) = Job_ID j \<and>
      token_ok (Lease_Token (Job_Lease j)) \<and> Job_LeaseOwner j \<noteq> '''' \<and>
      length (Job_LeaseOwner j) \<le> 256 \<and> \<not> IsZero (Job_LeaseUntil j))"
  have "validateStoredJob j = None \<longleftrightarrow>
     job_id_ok (Job_ID j) \<and> name_ok 128 (Job_Queue j) \<and> name_ok 128 (Job_Kind j) \<and>
     Job_Payload j \<noteq> None \<and> length (slice_bytes (Job_Payload j)) \<le> 1048576 \<and>
     length (Job_IdempotencyKey j) \<le> 256 \<and> clean_text (Job_IdempotencyKey j) \<and>
     length (Job_LastError j) \<le> 4096 \<and> clean_text (Job_LastError j) \<and> clean_text (Job_LeaseOwner j) \<and>
     0 \<le> Job_Attempts j \<and> Job_Attempts j \<le> Job_MaxAttempts j \<and> 1 \<le> Job_MaxAttempts j \<and>
     Job_MaxAttempts j \<le> 100 \<and>
     isPostgreSQLTimestamp (Job_AvailableAt j) \<and> isPostgreSQLTimestamp (Job_CreatedAt j) \<and>
     isPostgreSQLTimestamp (Job_UpdatedAt j) \<and> opt_time_ok (Job_LeaseUntil j) \<and>
     opt_time_ok (Job_FinishedAt j) \<and>
     (Job_State j = StatePending \<longrightarrow> Job_Attempts j < Job_MaxAttempts j) \<and>
     (Job_State j \<in> set [StateRunning, StateSucceeded, StateDead] \<longrightarrow> Job_Attempts j \<noteq> 0) \<and>
     ?shape \<and>
     (Job_State j \<in> set [StateSucceeded, StateDead, StateCanceled]) = (\<not> IsZero (Job_FinishedAt j))"
    by (simp add: validateStoredJob_def go_defs job_id_ok_def token_ok_def opt_time_ok_def clean_text_def
        not_less not_le) blast
  also have "\<dots> \<longleftrightarrow> stored_job_ok j"
    unfolding stored_job_ok_def job_lease_shape_def job_state_shape_def known_states_def
    by (cases "Job_State j = StateRunning") auto
  finally show ?thesis .
qed

lemma check_scanned_Inr:
  "check_scanned raw fp' job = Inr (fp, j) \<Longrightarrow> fp' = fp \<and> stored_job_ok j"
  by (auto simp: check_scanned_def validateStoredJob_None [symmetric] split: option.splits if_splits)

lemma scanJobRow_Inr:
  assumes "scanJobRow (Inr raw) s = Inr (fp, j)"
  shows "stored_job_ok j \<and>
    (case s of None \<Rightarrow> Inr [] | Some scanner \<Rightarrow> ScanBytes scanner (raw_fingerprint raw)) = Inr fp"
  using assms unfolding scanJobRow_def bindr_simps bindr_Inr_iff
  by (elim exE conjE, cases "raw_available_at raw"; cases "raw_created_at raw"; cases "raw_updated_at raw")
    (auto dest!: check_scanned_Inr)

lemma scanJob_error [simp]: "scanJob (Inl e) = Inl e"
  by (simp add: scanJob_def scanJobRow_def)

lemma scanJobWithFingerprint_error [simp]: "scanJobWithFingerprint (Inl e) = Inl e"
  by (simp add: scanJobWithFingerprint_def scanJobRow_def)

text \<open>
  C28. Whatever a row holds, the only jobs \<^verbatim>\<open>scanJob\<close> and \<^verbatim>\<open>scanJobWithFingerprint\<close>
  return satisfy the complete stored-job contract: identifier and token format, name
  alphabet and lengths, a payload, attempt budget, finite microsecond timestamps, clean
  text, one of the five states with the lease present exactly while running and the finish
  time exactly when terminal; and a returned fingerprint has exactly 32 bytes.
\<close>

theorem scanJob_sound:
  "(case scanJob row of Inr j \<Rightarrow> stored_job_ok j | Inl _ \<Rightarrow> True) \<and>
   (case scanJobWithFingerprint row of Inr (fp, j) \<Rightarrow> stored_job_ok j \<and> length fp = 32 | Inl _ \<Rightarrow> True)"
proof (cases row)
  case (Inr raw)
  have 1: "case scanJob row of Inr j \<Rightarrow> stored_job_ok j | Inl _ \<Rightarrow> True"
  proof (cases "scanJobRow (Inr raw) None")
    case (Inr p)
    then have "stored_job_ok (snd p)" using scanJobRow_Inr [of raw None "fst p" "snd p"] by simp
    with Inr \<open>row = Inr raw\<close> show ?thesis by (simp add: scanJob_def)
  qed (use Inr in \<open>simp add: scanJob_def\<close>)
  let ?fp = "\<lparr>bs_label = ''request fingerprint'', bs_minimum = 32, bs_maximum = 32\<rparr>"
  have 2: "case scanJobWithFingerprint row of Inr (fp, j) \<Rightarrow> stored_job_ok j \<and> length fp = 32 | Inl _ \<Rightarrow> True"
  proof (cases "scanJobRow (Inr raw) (Some ?fp)")
    case (Inr p)
    then have "stored_job_ok (snd p) \<and> ScanBytes ?fp (raw_fingerprint raw) = Inr (fst p)"
      using scanJobRow_Inr [of raw "Some ?fp" "fst p" "snd p"] by simp
    then have "stored_job_ok (snd p) \<and> length (fst p) = 32"
      by (auto simp: ScanBytes_def split: option.splits if_splits)
    with Inr \<open>row = Inr raw\<close> show ?thesis by (simp add: scanJobWithFingerprint_def split_beta)
  qed (use Inr in \<open>simp add: scanJobWithFingerprint_def\<close>)
  from 1 2 show ?thesis by blast
qed simp

section \<open>Rows the library writes\<close>

definition opt_text :: "string option \<Rightarrow> bool \<times> string" where
  "opt_text x = (case x of None \<Rightarrow> (False, '''') | Some s \<Rightarrow> (True, s))"

text \<open>The columns a job query returns for a table row, and the job that decodes from them.\<close>

definition raw_of_row :: "row \<Rightarrow> raw_row" where
  "raw_of_row r = \<lparr>raw_fingerprint = Some (c_request_fingerprint r), raw_id = Some (c_id r),
     raw_queue = Some (c_queue r), raw_kind = Some (c_kind r), raw_payload = Some (c_payload r),
     raw_key = c_idempotency_key r, raw_state = Some (c_state r), raw_attempts = Some (c_attempts r),
     raw_max_attempts = Some (c_max_attempts r), raw_available_at = Some (c_available_at r),
     raw_created_at = Some (c_created_at r), raw_updated_at = Some (c_updated_at r),
     raw_lease_token = c_lease_token r, raw_lease_owner = c_lease_owner r,
     raw_lease_until = c_lease_until r, raw_last_error = Some (c_last_error r),
     raw_finished_at = c_finished_at r\<rparr>"

definition job_of_row :: "row \<Rightarrow> Job" where
  "job_of_row r = assemble_job (c_id r) (c_queue r) (c_kind r) (c_payload r)
     (opt_text (c_idempotency_key r)) (c_state r) (c_attempts r) (c_max_attempts r)
     (c_available_at r) (c_created_at r) (c_updated_at r) (opt_text (c_lease_token r))
     (opt_text (c_lease_owner r)) (c_lease_until r) (c_last_error r) (c_finished_at r)"

lemma job_of_row_simps [simp]:
  "Job_ID (job_of_row r) = c_id r" "Job_Queue (job_of_row r) = c_queue r"
  "Job_Kind (job_of_row r) = c_kind r" "Job_Payload (job_of_row r) = Some (c_payload r)"
  "Job_State (job_of_row r) = c_state r" "Job_Attempts (job_of_row r) = c_attempts r"
  "Job_MaxAttempts (job_of_row r) = c_max_attempts r" "Job_LastError (job_of_row r) = c_last_error r"
  "Job_AvailableAt (job_of_row r) = time_of_pg (c_available_at r)"
  "Job_CreatedAt (job_of_row r) = time_of_pg (c_created_at r)"
  "Job_UpdatedAt (job_of_row r) = time_of_pg (c_updated_at r)"
  "Job_LeaseUntil (job_of_row r) = (case c_lease_until r of None \<Rightarrow> zero_time | Some t \<Rightarrow> time_of_pg t)"
  "Job_FinishedAt (job_of_row r) = (case c_finished_at r of None \<Rightarrow> zero_time | Some t \<Rightarrow> time_of_pg t)"
  by (simp_all add: job_of_row_def assemble_job_def)

lemma job_of_row_text:
  "Job_IdempotencyKey (job_of_row r) = (case c_idempotency_key r of None \<Rightarrow> '''' | Some k \<Rightarrow> k)"
  "Job_LeaseOwner (job_of_row r) = (case c_lease_owner r of None \<Rightarrow> '''' | Some k \<Rightarrow> k)"
  "Job_Lease (job_of_row r) =
     (case c_lease_token r of None \<Rightarrow> zero_Lease | Some t \<Rightarrow> \<lparr>Lease_JobID = c_id r, Lease_Token = t\<rparr>)"
  by (simp_all add: job_of_row_def assemble_job_def opt_text_def split: option.splits)

text \<open>
  The row invariant of the library: the schema's constraints, the server's, and the two
  contracts the schema leaves to the library, the name alphabet and instants other than
  Go's zero time.
\<close>

definition row_ok :: "row \<Rightarrow> bool" where
  "row_ok r \<longleftrightarrow> gotth_jobs_checks r \<and> server_accepts r \<and>
     name_ok 128 (c_queue r) \<and> name_ok 128 (c_kind r) \<and>
     pg_instant (c_available_at r) \<and> pg_instant (c_created_at r) \<and> pg_instant (c_updated_at r) \<and>
     opt_all pg_instant (c_lease_until r) \<and> opt_all pg_instant (c_finished_at r)"

lemma IsZero_zero_time [simp]: "IsZero zero_time"
  by (simp add: IsZero_def zero_time_def)

text \<open>The invariant taken apart: scalar facts, then the shape each state imposes.\<close>

lemma row_ok_scalars:
  assumes "row_ok r"
  shows "job_id_ok (c_id r)" "name_ok 128 (c_queue r)" "name_ok 128 (c_kind r)"
    "length (c_payload r) \<le> 1048576" "length (c_request_fingerprint r) = 32"
    "length (c_last_error r) \<le> 4096" "clean_text (c_last_error r)"
    "0 \<le> c_attempts r" "c_attempts r \<le> c_max_attempts r" "1 \<le> c_max_attempts r" "c_max_attempts r \<le> 100"
    "pg_instant (c_available_at r)" "pg_instant (c_created_at r)" "pg_instant (c_updated_at r)"
    "opt_all pg_instant (c_lease_until r)" "opt_all pg_instant (c_finished_at r)"
    "c_state r \<in> set known_states"
    "opt_all (\<lambda>k. k \<noteq> [] \<and> length k \<le> 256 \<and> clean_text k) (c_idempotency_key r)"
    "opt_all token_ok (c_lease_token r)"
    "opt_all (\<lambda>w. w \<noteq> [] \<and> length w \<le> 256 \<and> clean_text w) (c_lease_owner r)"
proof -
  note ok = assms [unfolded row_ok_def gotth_jobs_checks_def]
  show "opt_all (\<lambda>k. k \<noteq> [] \<and> length k \<le> 256 \<and> clean_text k) (c_idempotency_key r)"
    using ok by (cases "c_idempotency_key r") (auto simp: gotth_jobs_key_length_def server_accepts_def between_def)
  show "opt_all token_ok (c_lease_token r)"
    using ok by (cases "c_lease_token r") (simp_all add: gotth_jobs_lease_token_length_def token_ok_def hex_format_def)
  show "opt_all (\<lambda>w. w \<noteq> [] \<and> length w \<le> 256 \<and> clean_text w) (c_lease_owner r)"
    using ok by (cases "c_lease_owner r") (auto simp: gotth_jobs_worker_length_def server_accepts_def between_def)
qed (use assms in \<open>simp_all add: row_ok_def gotth_jobs_checks_def gotth_jobs_id_format_def
    gotth_jobs_payload_length_def gotth_jobs_fingerprint_length_def gotth_jobs_state_def gotth_jobs_attempts_def
    gotth_jobs_max_attempts_def gotth_jobs_failure_length_def server_accepts_def job_id_ok_def hex_format_def
    between_def known_states_def state_defs\<close>)

lemma row_ok_running:
  assumes "row_ok r"
  shows "c_state r = StateRunning \<longleftrightarrow> c_lease_token r \<noteq> None"
    "c_state r = StateRunning \<longleftrightarrow> c_lease_owner r \<noteq> None"
    "c_state r = StateRunning \<longleftrightarrow> c_lease_until r \<noteq> None"
  using assms by (auto simp: row_ok_def gotth_jobs_checks_def gotth_jobs_lease_shape_def state_defs)

lemma row_ok_finished:
  assumes "row_ok r"
  shows "c_state r \<in> set [StateSucceeded, StateDead, StateCanceled] \<longleftrightarrow> c_finished_at r \<noteq> None"
  using assms by (auto simp: row_ok_def gotth_jobs_checks_def gotth_jobs_finished_shape_def state_defs)

lemma row_ok_attempts:
  assumes "row_ok r"
  shows "c_state r = StatePending \<Longrightarrow> c_attempts r < c_max_attempts r"
    "c_state r \<in> set [StateRunning, StateSucceeded, StateDead] \<Longrightarrow> 1 \<le> c_attempts r"
  using assms
  by (auto simp: row_ok_def gotth_jobs_checks_def gotth_jobs_state_attempt_shape_def state_defs)

lemma row_ok_job:
  assumes "row_ok r"
  shows "stored_job_ok (job_of_row r)"
proof -
  note d = row_ok_scalars [OF assms] row_ok_running [OF assms] row_ok_attempts [OF assms]
  have "job_lease_shape (job_of_row r)"
    using d(15,19,20,21-23)
    by (cases "c_lease_token r"; cases "c_lease_owner r"; cases "c_lease_until r")
      (simp_all add: job_lease_shape_def job_of_row_text pg_instant_def)
  moreover have "job_state_shape (job_of_row r)"
    unfolding job_state_shape_def job_of_row_simps row_ok_finished [OF assms]
    using d(16,17,24,25) by (cases "c_finished_at r") (simp_all add: pg_instant_def)
  moreover have "opt_time_ok (Job_LeaseUntil (job_of_row r))" "opt_time_ok (Job_FinishedAt (job_of_row r))"
    "length (Job_IdempotencyKey (job_of_row r)) \<le> 256 \<and> clean_text (Job_IdempotencyKey (job_of_row r))"
    "clean_text (Job_LeaseOwner (job_of_row r))"
    using d(15,16,18,20) by (auto simp: opt_time_ok_def job_of_row_text opt_all_def split: option.splits)
  ultimately show ?thesis using d by (simp add: stored_job_ok_def)
qed

lemma ScanText_nonnull:
  "ScanText (text_scanner l lo hi n) (Some s) = Inr (True, s)" if "lo \<le> length s" "length s \<le> hi"
  using that by (simp add: ScanText_def text_scanner_def)

lemma ScanText_nullable:
  "opt_all (\<lambda>s. lo \<le> length s \<and> length s \<le> hi) x \<Longrightarrow>
   ScanText (text_scanner l lo hi True) x = Inr (opt_text x)"
  by (cases x) (simp_all add: ScanText_def text_scanner_def opt_text_def)

lemma scanJobRow_row_ok:
  assumes "row_ok r" "fps = None \<or> fps = Some \<lparr>bs_label = l, bs_minimum = 32, bs_maximum = 32\<rparr>"
  shows "scanJobRow (Inr (raw_of_row r)) fps =
    Inr (if fps = None then [] else c_request_fingerprint r, job_of_row r)"
proof -
  note d = row_ok_scalars [OF assms(1)]
  have fp: "ScanBytes \<lparr>bs_label = l, bs_minimum = 32, bs_maximum = 32\<rparr> (Some (c_request_fingerprint r)) =
      Inr (c_request_fingerprint r)"
    using d(5) by (simp add: ScanBytes_def)
  have nullable:
    "ScanText (text_scanner ''idempotency key'' 1 MaxIdempotencyKeyBytes True) (c_idempotency_key r) =
      Inr (opt_text (c_idempotency_key r))"
    "ScanText (text_scanner ''lease token'' 64 64 True) (c_lease_token r) = Inr (opt_text (c_lease_token r))"
    "ScanText (text_scanner ''lease owner'' 1 MaxWorkerBytes True) (c_lease_owner r) = Inr (opt_text (c_lease_owner r))"
    using d(18-20)
    by (auto intro!: ScanText_nullable simp: opt_all_def go_defs token_ok_def Suc_le_eq split: option.splits)
  have st: "1 \<le> length (c_state r)" "length (c_state r) \<le> length StateSucceeded"
    using d(17) by (auto simp: known_states_def state_defs)
  have nonnull: "ScanText (text_scanner ''ID'' 32 32 False) (Some (c_id r)) = Inr (True, c_id r)"
    "ScanText (text_scanner ''queue'' 1 MaxQueueBytes False) (Some (c_queue r)) = Inr (True, c_queue r)"
    "ScanText (text_scanner ''kind'' 1 MaxKindBytes False) (Some (c_kind r)) = Inr (True, c_kind r)"
    "ScanText (text_scanner ''state'' 1 (length StateSucceeded) False) (Some (c_state r)) = Inr (True, c_state r)"
    "ScanText (text_scanner ''last error'' 0 MaxFailureBytes False) (Some (c_last_error r)) = Inr (True, c_last_error r)"
    using d(1-3,6) st
    by (auto intro!: ScanText_nonnull simp: go_defs job_id_ok_def name_ok_def Suc_le_eq)
  have payload: "ScanBytes \<lparr>bs_label = ''payload'', bs_minimum = 0, bs_maximum = MaxPayloadBytes\<rparr>
      (Some (c_payload r)) = Inr (c_payload r)"
    using d(4) by (simp add: ScanBytes_def go_defs)
  have "check_scanned (raw_of_row r) b (job_of_row r) = Inr (b, job_of_row r)" for b
    using d(15,16) row_ok_job [OF assms(1), folded validateStoredJob_None]
    by (cases "c_lease_until r"; cases "c_finished_at r") (simp_all add: check_scanned_def raw_of_row_def)
  with assms(2) show ?thesis
    unfolding scanJobRow_def
    by (elim disjE) (simp_all add: raw_of_row_def fp nullable nonnull payload scan_int_def job_of_row_def
        del: One_nat_def)
qed

lemma scanJob_row_ok [simp]: "row_ok r \<Longrightarrow> scanJob (Inr (raw_of_row r)) = Inr (job_of_row r)"
  using scanJobRow_row_ok [of r None] by (simp add: scanJob_def)

lemma scanJobWithFingerprint_row_ok [simp]:
  "row_ok r \<Longrightarrow> scanJobWithFingerprint (Inr (raw_of_row r)) = Inr (c_request_fingerprint r, job_of_row r)"
  using scanJobRow_row_ok [OF _ disjI2, of r] by (simp add: scanJobWithFingerprint_def)

text \<open>The shape a state imposes on the lease, finish time and attempts of a row.\<close>

definition row_shape :: "row \<Rightarrow> bool" where
  "row_shape r \<longleftrightarrow>
     (c_state r = StateRunning \<longleftrightarrow> c_lease_token r \<noteq> None) \<and>
     (c_state r = StateRunning \<longleftrightarrow> c_lease_owner r \<noteq> None) \<and>
     (c_state r = StateRunning \<longleftrightarrow> c_lease_until r \<noteq> None) \<and>
     (c_state r \<in> set [StateSucceeded, StateDead, StateCanceled] \<longleftrightarrow> c_finished_at r \<noteq> None) \<and>
     (c_state r = StatePending \<longrightarrow> c_attempts r < c_max_attempts r) \<and>
     (c_state r \<in> set [StateRunning, StateSucceeded, StateDead] \<longrightarrow> 1 \<le> c_attempts r)"

lemma row_ok_shape: "row_ok r \<Longrightarrow> row_shape r"
  unfolding row_shape_def
  using row_ok_running row_ok_finished row_ok_attempts by blast

lemma row_shape_checks:
  assumes "c_state r \<in> set known_states" "row_shape r"
  shows "gotth_jobs_state_attempt_shape r" "gotth_jobs_lease_shape r" "gotth_jobs_finished_shape r"
proof -
  from assms(1) consider "c_state r = StatePending" | "c_state r = StateRunning" | "c_state r = StateSucceeded"
    | "c_state r = StateDead" | "c_state r = StateCanceled"
    by (auto simp: known_states_def)
  then have "gotth_jobs_state_attempt_shape r \<and> gotth_jobs_lease_shape r \<and> gotth_jobs_finished_shape r"
    using assms(2)
    by cases (simp_all add: row_shape_def gotth_jobs_state_attempt_shape_def
        gotth_jobs_lease_shape_def gotth_jobs_finished_shape_def, simp_all add: state_defs)
  then show "gotth_jobs_state_attempt_shape r" "gotth_jobs_lease_shape r" "gotth_jobs_finished_shape r"
    by blast+
qed

lemma row_okI:
  assumes "job_id_ok (c_id r)" "name_ok 128 (c_queue r)" "name_ok 128 (c_kind r)"
    "length (c_payload r) \<le> 1048576" "length (c_request_fingerprint r) = 32"
    "length (c_last_error r) \<le> 4096" "clean_text (c_last_error r)"
    "0 \<le> c_attempts r" "c_attempts r \<le> c_max_attempts r" "1 \<le> c_max_attempts r" "c_max_attempts r \<le> 100"
    "pg_instant (c_available_at r)" "pg_instant (c_created_at r)" "pg_instant (c_updated_at r)"
    "opt_all pg_instant (c_lease_until r)" "opt_all pg_instant (c_finished_at r)"
    "c_state r \<in> set known_states"
    "opt_all (\<lambda>k. k \<noteq> [] \<and> length k \<le> 256 \<and> clean_text k) (c_idempotency_key r)"
    "opt_all token_ok (c_lease_token r)"
    "opt_all (\<lambda>w. w \<noteq> [] \<and> length w \<le> 256 \<and> clean_text w) (c_lease_owner r)"
    "row_shape r"
  shows "row_ok r"
proof -
  have st: "clean_text (c_state r)" "gotth_jobs_state r"
    using assms(17) by (auto simp: known_states_def state_defs gotth_jobs_state_def ord_def intro!: clean_text_ascii)
  have key: "gotth_jobs_key_length r" "opt_all clean_text (c_idempotency_key r)"
    using assms(18) by (cases "c_idempotency_key r"; auto simp: gotth_jobs_key_length_def between_def Suc_le_eq)+
  have token: "gotth_jobs_lease_token_length r" "opt_all clean_text (c_lease_token r)"
    using assms(19)
    by (cases "c_lease_token r"; auto simp: gotth_jobs_lease_token_length_def hex_format_def token_ok_def isLowerHex_clean)+
  have owner: "gotth_jobs_worker_length r" "opt_all clean_text (c_lease_owner r)"
    using assms(20) by (cases "c_lease_owner r"; auto simp: gotth_jobs_worker_length_def between_def Suc_le_eq)+
  have times: "opt_all pg_finite (c_lease_until r)" "opt_all pg_finite (c_finished_at r)"
    using assms(15,16) by (auto simp: opt_all_def pg_instant_def split: option.splits)
  have "gotth_jobs_checks r"
    using assms(1-11) st key token owner row_shape_checks [OF assms(17,21)]
    by (simp add: gotth_jobs_checks_def gotth_jobs_id_format_def gotth_jobs_queue_length_def
        gotth_jobs_kind_length_def gotth_jobs_payload_length_def gotth_jobs_fingerprint_length_def
        gotth_jobs_attempts_def gotth_jobs_max_attempts_def gotth_jobs_failure_length_def hex_format_def
        job_id_ok_def name_ok_def between_def Suc_le_eq)
  moreover have "server_accepts r"
    using assms st key token owner times name_ok_clean
    by (auto simp: server_accepts_def job_id_ok_def isLowerHex_clean pg_instant_def)
  ultimately show ?thesis using assms(2,3,12-16) by (simp add: row_ok_def)
qed

end
