(* ===== verification/Postgres.thy ===== *)
theory Postgres
  imports Rows
begin

text \<open>
  \<^verbatim>\<open>postgres.go\<close>: the repository handle, \<^verbatim>\<open>nilLike\<close> and the explicit transaction
  \<^verbatim>\<open>transact\<close>. PostgreSQL and pgx are outside the repository: everything they may do to
  one call is a \<open>script\<close>, an argument of every operation. It fixes the errors of begin,
  of each statement, of commit and of rollback, whether a failed commit took effect, every
  reading of \<^verbatim>\<open>clock_timestamp()\<close>, the rows other transactions hold locked, what they
  commit before a second statement of the transaction takes its snapshot, how many rows arrive
  before a result set breaks off, and the random bytes. A statement denotes its effect on
  the table; a failed one changes nothing.
\<close>

section \<open>Handles\<close>

text \<open>
  A Go interface value as \<^verbatim>\<open>nilLike\<close> inspects it: nil, or a value of some
  \<^verbatim>\<open>reflect.Kind\<close> that may hold a nil pointer.
\<close>

datatype reflect_kind =
  Chan | Func | Interface | MapKind | Pointer | Slice | OtherKind

datatype go_any = NilInterface | Boxed reflect_kind bool

definition nilLike :: "go_any \<Rightarrow> bool" where
  "nilLike value =
     (case value of
        NilInterface \<Rightarrow> True
      | Boxed kind isnil \<Rightarrow>
          if kind \<in> set [Chan, Func, Interface, MapKind, Pointer, Slice] then isnil else False)"

record PostgreSQL =
  database :: go_any

text \<open>A \<^verbatim>\<open>*PostgreSQL\<close> (nil is \<^const>\<open>None\<close>) and a \<^verbatim>\<open>context.Context\<close>.\<close>

type_synonym repository = "PostgreSQL option"
type_synonym ctx = go_any

definition NewPostgreSQL :: "go_any \<Rightarrow> repository \<times> error" where
  "NewPostgreSQL db =
     (if nilLike db then (None, Some (invalid ''database is required''))
      else (Some \<lparr>database = db\<rparr>, None))"

definition usable :: "repository \<Rightarrow> ctx \<Rightarrow> bool" where
  "usable repository ctx \<longleftrightarrow>
     \<not> (case repository of None \<Rightarrow> True | Some p \<Rightarrow> nilLike (database p)) \<and> ctx \<noteq> NilInterface"

lemma NewPostgreSQL_usable:
  "NewPostgreSQL db = (repository, None) \<Longrightarrow> ctx \<noteq> NilInterface \<Longrightarrow> usable repository ctx"
  by (auto simp: NewPostgreSQL_def usable_def split: if_splits)

section \<open>The environment of one call\<close>

text \<open>
  \<open>clock\<close> gives the reading of \<^verbatim>\<open>clock_timestamp()\<close> by its position in the statement
  and by the row it is evaluated for, because the function is volatile.
\<close>

type_synonym clock = "nat \<Rightarrow> string \<Rightarrow> timestamptz"

record script =
  s_entropy :: io_reader
  s_begin :: error
  s_fault :: "nat \<Rightarrow> error"
  s_clock :: clock
  s_locked :: "string list"
  s_later :: "db \<Rightarrow> db"
  s_delivered :: nat
  s_isolation :: string
  s_commit :: error
  s_commit_applied :: bool
  s_rollback :: error

text \<open>The database clock stays in the range the library can represent, a day before its end.\<close>

definition clock_sane :: "clock \<Rightarrow> bool" where
  "clock_sane clk \<longleftrightarrow> (\<forall>n i. 0 \<le> clk n i \<and> clk n i \<le> 9224318015999999999 - 86400000000)"

lemma clock_sane_instant:
  assumes "clock_sane clk" "0 \<le> d" "d \<le> 86400000000"
  shows "pg_instant (clk n i)" "pg_instant (clk n i + d)"
proof -
  have "0 \<le> clk n i" "clk n i \<le> 9224318015999999999 - 86400000000"
    using assms(1) by (auto simp: clock_sane_def)
  with assms(2,3) show "pg_instant (clk n i)" "pg_instant (clk n i + d)"
    by (simp_all add: pg_instant_def pg_finite_def pg_zero_def)
qed

text \<open>
  Under Read Committed every statement has a snapshot of its own. A transaction of the
  library sends a second statement only after a first one that wrote nothing, and the second
  only reads: it sees \<open>s_later\<close> of the table the first one saw. What others committed there
  is not an effect of the call, so the call returns the table without it.
\<close>

section \<open>Statements\<close>

text \<open>
  A statement returns rows and the new table, or a server error that changes nothing. A
  row written must satisfy the schema and the server.
\<close>

type_synonym stmt = "db \<Rightarrow> (row list \<times> db) result"

definition storable :: "row \<Rightarrow> bool" where
  "storable r \<longleftrightarrow> gotth_jobs_checks r \<and> server_accepts r"

definition sql_select :: "(row \<Rightarrow> bool) \<Rightarrow> stmt" where
  "sql_select p db = Inr (filter p db, db)"

definition sql_update :: "(row \<Rightarrow> bool) \<Rightarrow> (row \<Rightarrow> row) \<Rightarrow> stmt" where
  "sql_update p f db =
     (let rows = map f (filter p db)
      in if list_all storable rows then Inr (rows, update_where p f db)
         else Inl (Opaque ''new row violates check constraint''))"

text \<open>\<^verbatim>\<open>QueryRow\<close>: the first row, or \<^verbatim>\<open>pgx.ErrNoRows\<close>, or the error of the \<open>n\<close>th statement.\<close>

definition run_stmt :: "script \<Rightarrow> nat \<Rightarrow> stmt \<Rightarrow> stmt" where
  "run_stmt s n st db = (case s_fault s n of Some e \<Rightarrow> Inl e | None \<Rightarrow> st db)"

definition query_row :: "script \<Rightarrow> nat \<Rightarrow> stmt \<Rightarrow> db \<Rightarrow> pgx_row \<times> db" where
  "query_row s n st db =
     (case run_stmt s n st db of
        Inl e \<Rightarrow> (Inl e, db)
      | Inr ([], db') \<Rightarrow> (Inl (Sentinel pgx_ErrNoRows), db')
      | Inr (r # _, db') \<Rightarrow> (Inr (raw_of_row r), db'))"

lemma query_row_select [simp]:
  "snd (query_row s n (sql_select p) db) = db"
  by (auto simp: query_row_def run_stmt_def sql_select_def split: option.splits list.splits)

section \<open>Transactions\<close>

type_synonym 'a body = "db \<Rightarrow> db \<times> 'a \<times> error"

text \<open>
  The deferred rollback: its own error is joined to a pending one unless the transaction
  was already closed.
\<close>

definition deferred_rollback :: "script \<Rightarrow> go_error \<Rightarrow> go_error" where
  "deferred_rollback s err =
     (case s_rollback s of
        None \<Rightarrow> err
      | Some rollbackErr \<Rightarrow>
          if errors_Is rollbackErr pgx_ErrTxClosed then err
          else JoinError [err, errorf_wrap ''rollback job transaction'' rollbackErr])"

definition transact :: "ctx \<Rightarrow> script \<Rightarrow> 'a \<Rightarrow> 'a body \<Rightarrow> 'a body" where
  "transact ctx s zero operation db =
     (if ctx = NilInterface then (db, zero, Some (invalid ''context is required''))
      else case s_begin s of
        Some beginErr \<Rightarrow> (db, zero, Some (errorf_wrap ''begin job transaction'' beginErr))
      | None \<Rightarrow>
          (case operation db of
             (_, value, Some err) \<Rightarrow> (db, value, Some (deferred_rollback s err))
           | (db', value, None) \<Rightarrow>
               (case s_commit s of
                  Some commitErr \<Rightarrow>
                    (if s_commit_applied s then db' else db, value,
                     Some (deferred_rollback s
                       (JoinError [Sentinel ErrCommitOutcomeUnknown,
                                   errorf_wrap ''commit job transaction'' commitErr])))
                | None \<Rightarrow> (db', value, None))))"

lemma errors_Is_deferred_rollback:
  "errors_Is err x \<Longrightarrow> errors_Is (deferred_rollback s err) x"
  by (simp add: deferred_rollback_def split: option.splits)

text \<open>Every run of a transaction either keeps the table or installs what its body produced.\<close>

lemma transact_cases:
  assumes "transact ctx s zero operation db = (db', v, err)"
  obtains (kept) "db' = db" "err \<noteq> None"
  | (committed) "operation db = (db', v, None)" "err = None" "s_begin s = None"
  | (unknown) "operation db = (db', v, None)" "Is err ErrCommitOutcomeUnknown" "s_begin s = None"
  using assms
  by (auto simp: transact_def deferred_rollback_def
      split: if_splits option.splits prod.splits intro: that)

lemma transact_Ok:
  "transact ctx s zero operation db = (db', v, None) \<Longrightarrow> operation db = (db', v, None)"
  by (auto elim: transact_cases)

lemma transact_run:
  assumes "ctx \<noteq> NilInterface" "s_begin s = None" "s_commit s = None" "operation db = (db', v, None)"
  shows "transact ctx s zero operation db = (db', v, None)"
  using assms by (simp add: transact_def)

lemma transact_error:
  assumes "ctx \<noteq> NilInterface" "s_begin s = None" "operation db = (db', v, Some e)"
  shows "transact ctx s zero operation db = (db, v, Some (deferred_rollback s e))"
  using assms by (simp add: transact_def)

text \<open>An invariant the body keeps is kept by the transaction, whatever fails.\<close>

lemma transact_invariant:
  assumes "transact ctx s zero operation db = (db', v, err)" "P db"
    "\<And>db1 w. operation db = (db1, w, None) \<Longrightarrow> P db1"
  shows "P db'"
  using assms by (auto elim: transact_cases)

lemma after_call: "(\<And>db' v err. outcome = (db', v, err) \<Longrightarrow> P db') \<Longrightarrow> P (fst outcome)"
  by (cases outcome) auto

text \<open>An environment in which nothing fails.\<close>

definition healthy :: "script \<Rightarrow> bool" where
  "healthy s \<longleftrightarrow> s_begin s = None \<and> s_commit s = None \<and> s_rollback s = None \<and> s_fault s = (\<lambda>_. None)"

lemma healthy_D [simp]:
  assumes "healthy s"
  shows "s_begin s = None" "s_commit s = None" "s_fault s n = None" "deferred_rollback s e = e"
  using assms by (simp_all add: healthy_def deferred_rollback_def)

lemma usable_D:
  assumes "usable repository ctx"
  shows "ctx \<noteq> NilInterface" "\<not> (case repository of None \<Rightarrow> True | Some p \<Rightarrow> database p = NilInterface)"
    "\<not> (case repository of None \<Rightarrow> True | Some p \<Rightarrow> nilLike (database p))"
  using assms by (auto simp: usable_def nilLike_def split: option.splits)

text \<open>Errors of the environment that do not pretend to be an unknown outcome themselves.\<close>

definition plain_env :: "script \<Rightarrow> bool" where
  "plain_env s \<longleftrightarrow> \<not> Is (s_begin s) ErrCommitOutcomeUnknown \<and> \<not> Is (s_rollback s) ErrCommitOutcomeUnknown"

text \<open>
  C11. A transaction is atomic and its outcome is classified honestly. Without an error the
  body's table is in place. With an error other than \<^verbatim>\<open>ErrCommitOutcomeUnknown\<close> the
  table is exactly as before. \<^verbatim>\<open>ErrCommitOutcomeUnknown\<close> is reported exactly when the
  body succeeded and commit failed (bodies and begin or rollback errors that do not
  themselves claim it), and then the body's value is returned for reconciliation.
\<close>

theorem transact_outcome:
  assumes "transact ctx s zero operation db = (db', v, err)"
    and "plain_env s"
    and "\<not> Is (snd (snd (operation db))) ErrCommitOutcomeUnknown"
  shows "(err = None \<longrightarrow> operation db = (db', v, None)) \<and>
    (err \<noteq> None \<and> \<not> Is err ErrCommitOutcomeUnknown \<longrightarrow> db' = db) \<and>
    (Is err ErrCommitOutcomeUnknown \<longleftrightarrow>
       ctx \<noteq> NilInterface \<and> s_begin s = None \<and> snd (snd (operation db)) = None \<and> s_commit s \<noteq> None) \<and>
    (Is err ErrCommitOutcomeUnknown \<longrightarrow>
       v = fst (snd (operation db)) \<and> db' = (if s_commit_applied s then fst (operation db) else db))"
  using assms
  by (cases "operation db")
    (auto simp: transact_def deferred_rollback_def plain_env_def
      split: if_splits option.splits prod.splits)

theorem transact_outcome_witness:
  "\<exists>s (operation :: nat body) err. transact (Boxed Pointer False) s 0 operation [] = ([], 7, err) \<and>
     Is err ErrCommitOutcomeUnknown"
proof -
  let ?s = "\<lparr>s_entropy = \<lparr>reader_bytes = [], reader_error = Opaque ''EOF''\<rparr>, s_begin = None,
    s_fault = (\<lambda>_. None), s_clock = (\<lambda>_ _. 0), s_locked = [], s_later = id, s_delivered = 0, s_isolation = ''read committed'',
    s_commit = Some (Opaque ''connection reset''), s_commit_applied = True, s_rollback = None\<rparr>"
  let ?op = "\<lambda>db::db. (db, 7::nat, None :: error)"
  obtain err where r: "transact (Boxed Pointer False) ?s 0 ?op [] = ([], 7, err)"
    by (simp add: transact_def)
  have "plain_env ?s" "\<not> Is (snd (snd (?op []))) ErrCommitOutcomeUnknown"
    by (simp_all add: plain_env_def)
  from transact_outcome [OF r this] have "Is err ErrCommitOutcomeUnknown" by simp
  with r show ?thesis by blast
qed

end
