(* ===== verification/Table.thy ===== *)
theory Table
  imports Postgres
begin

text \<open>
  The table invariant \<open>db_ok\<close> and the contract every single-row \<^verbatim>\<open>UPDATE\<close> of the
  library meets, as the locale \<open>keyed_update\<close>: it addresses one primary key, leaves the
  identity and request columns alone, and keeps the row invariant on admitted arguments.
  What follows from the contract is proved once here and reaches the five statements of
  \<^verbatim>\<open>lifecycle.go\<close> and \<^verbatim>\<open>operations.go\<close> by interpretation.
\<close>

section \<open>The table invariant\<close>

definition db_ok :: "db \<Rightarrow> bool" where
  "db_ok db \<longleftrightarrow> primary_key db \<and> gotth_jobs_idempotency db \<and> (\<forall>r \<in> set db. row_ok r)"

lemma db_ok_D:
  "db_ok db \<Longrightarrow> primary_key db" "db_ok db \<Longrightarrow> gotth_jobs_idempotency db"
  "db_ok db \<Longrightarrow> r \<in> set db \<Longrightarrow> row_ok r"
  by (simp_all add: db_ok_def)

lemma db_ok_Nil [simp]: "db_ok []"
  by (simp add: db_ok_def primary_key_def gotth_jobs_idempotency_def)

text \<open>The columns no statement but the insert ever writes.\<close>

definition identity :: "row \<Rightarrow> string \<times> string \<times> string \<times> bytes \<times> string option \<times> bytes \<times> int \<times> timestamptz" where
  "identity r = (c_id r, c_queue r, c_kind r, c_payload r, c_idempotency_key r,
     c_request_fingerprint r, c_max_attempts r, c_created_at r)"

lemma identity_D:
  assumes "identity r = identity s"
  shows "c_id r = c_id s" "c_queue r = c_queue s" "c_idempotency_key r = c_idempotency_key s"
    "c_kind r = c_kind s" "c_payload r = c_payload s" "c_max_attempts r = c_max_attempts s"
    "c_request_fingerprint r = c_request_fingerprint s" "c_created_at r = c_created_at s"
  using assms by (simp_all add: identity_def)

lemma identity_keys:
  assumes "map identity db' = map identity db"
  shows "primary_key db' = primary_key db" "gotth_jobs_idempotency db' = gotth_jobs_idempotency db"
proof -
  have id: "map c_id db = map fst (map identity db)" for db
    by (simp add: identity_def comp_def)
  have idem: "map (\<lambda>r. (c_queue r, c_idempotency_key r)) (filter (\<lambda>r. c_idempotency_key r \<noteq> None) db) =
      map (\<lambda>(i, q, k, p, key, _). (q, key)) (filter (\<lambda>(i, q, k, p, key, _). key \<noteq> None) (map identity db))" for db
    by (induction db) (auto simp: identity_def)
  show "primary_key db' = primary_key db"
    using assms by (simp only: primary_key_def id)
  show "gotth_jobs_idempotency db' = gotth_jobs_idempotency db"
    using assms by (simp only: gotth_jobs_idempotency_def idem)
qed

lemma db_ok_update:
  assumes "db_ok db" "map identity db' = map identity db" "\<And>r. r \<in> set db' \<Longrightarrow> row_ok r"
  shows "db_ok db'"
  using assms identity_keys [OF assms(2)] by (simp add: db_ok_def)

lemma row_ok_storable: "row_ok r \<Longrightarrow> storable r"
  by (simp add: row_ok_def storable_def)

text \<open>Looking a row up after an update that keeps identities.\<close>

lemma find_row_map:
  assumes "\<And>r. r \<in> set db \<Longrightarrow> c_id (f r) = c_id r"
  shows "find_row i (map f db) = map_option f (find_row i db)"
  using assms by (induction db) (auto simp: find_row_def)

lemma find_row_update_where:
  assumes "\<And>r. identity (f r) = identity r"
  shows "find_row i (update_where p f db) = map_option (\<lambda>r. if p r then f r else r) (find_row i db)"
  unfolding update_where_def
  by (rule find_row_map) (simp add: identity_D(1) [OF assms])

section \<open>Updates addressed by primary key\<close>

locale keyed_update =
  fixes key :: "'a \<Rightarrow> string"
    and admitted :: "'a \<Rightarrow> bool"
    and guard :: "'a \<Rightarrow> row \<Rightarrow> bool"
    and upd :: "'a \<Rightarrow> row \<Rightarrow> row"
  assumes guard_key: "guard a r \<Longrightarrow> c_id r = key a"
    and frame: "identity (upd a r) = identity r"
    and keeps_ok: "admitted a \<Longrightarrow> row_ok r \<Longrightarrow> guard a r \<Longrightarrow> row_ok (upd a r)"
begin

text \<open>The rows the statement returns: at most one.\<close>

lemma returned:
  assumes "primary_key db"
  shows "map (upd a) (filter (guard a) db) =
    (case find_row (key a) db of Some r \<Rightarrow> if guard a r then [upd a r] else [] | None \<Rightarrow> [])"
proof -
  have "filter (guard a) db = filter (\<lambda>r. c_id r = key a \<and> guard a r) db"
    by (rule filter_cong) (auto dest: guard_key)
  then show ?thesis using filter_id_find [OF assms] by (simp split: option.splits)
qed

lemma rows_ok: "admitted a \<Longrightarrow> db_ok db \<Longrightarrow> r \<in> set (update_where (guard a) (upd a) db) \<Longrightarrow> row_ok r"
  using keeps_ok by (auto simp: in_update_where db_ok_def)

lemma identities: "map identity (update_where (guard a) (upd a) db) = map identity db"
  by (rule map_update_where) (simp add: frame)

lemma db_ok_upd: "admitted a \<Longrightarrow> db_ok db \<Longrightarrow> db_ok (update_where (guard a) (upd a) db)"
  by (rule db_ok_update [OF _ identities]) (simp_all add: rows_ok)

text \<open>On admitted arguments no constraint is ever violated.\<close>

lemma no_violation:
  assumes "admitted a" "db_ok db"
  shows "sql_update (guard a) (upd a) db =
    Inr (case find_row (key a) db of Some r \<Rightarrow> if guard a r then [upd a r] else [] | None \<Rightarrow> [],
         update_where (guard a) (upd a) db)"
proof -
  have "list_all storable (map (upd a) (filter (guard a) db))"
    using assms keeps_ok row_ok_storable by (auto simp: list_all_iff db_ok_def)
  then show ?thesis
    unfolding sql_update_def Let_def returned [OF db_ok_D(1) [OF assms(2)]] by simp
qed

lemma find_upd:
  "find_row i (update_where (guard a) (upd a) db) =
     map_option (\<lambda>r. if guard a r then upd a r else r) (find_row i db)"
  using find_row_update_where frame by blast

text \<open>A row the guard rejects, or no row: nothing changes.\<close>

lemma unchanged:
  assumes "primary_key db" "case find_row (key a) db of Some r \<Rightarrow> \<not> guard a r | None \<Rightarrow> True"
  shows "update_where (guard a) (upd a) db = db"
proof (rule update_where_none)
  fix r assume r: "r \<in> set db"
  show "\<not> guard a r"
  proof
    assume g: "guard a r"
    with r assms(1) have "find_row (key a) db = Some r"
      using find_row_member guard_key by metis
    with assms(2) g show False by simp
  qed
qed

end

section \<open>Replacing one row\<close>

lemma find_row_append:
  "find_row i (db @ [r]) = (case find_row i db of Some x \<Rightarrow> Some x | None \<Rightarrow> if c_id r = i then Some r else None)"
  by (induction db) (auto simp: find_row_def)

text \<open>The table with one row exchanged: what a keyed update that matched amounts to.\<close>

definition set_row :: "string \<Rightarrow> row \<Rightarrow> db \<Rightarrow> db" where
  "set_row i r' db = map (\<lambda>r. if c_id r = i then r' else r) db"

lemma find_set_row_other:
  "c_id r' = i \<Longrightarrow> j \<noteq> i \<Longrightarrow> find_row j (set_row i r' db) = find_row j db"
  by (induction db) (auto simp: set_row_def find_row_def)

lemma find_set_row_same:
  "find_row i db = Some r \<Longrightarrow> c_id r' = i \<Longrightarrow> find_row i (set_row i r' db) = Some r'"
  by (induction db) (auto simp: set_row_def find_row_def split: if_splits)

lemma find_set_row:
  assumes "find_row i db = Some r" "c_id r' = i"
  shows "find_row j (set_row i r' db) = (if j = i then Some r' else find_row j db)"
  using assms find_set_row_same find_set_row_other by simp

lemma set_row_members:
  "x \<in> set (set_row i r' db) \<Longrightarrow> x = r' \<or> (x \<in> set db \<and> c_id x \<noteq> i)"
  by (auto simp: set_row_def split: if_splits)

context keyed_update
begin

lemma as_set_row:
  assumes "primary_key db" "find_row (key a) db = Some r" "guard a r"
  shows "update_where (guard a) (upd a) db = set_row (key a) (upd a r) db"
  unfolding update_where_def set_row_def
proof (rule map_cong [OF refl])
  fix x assume x: "x \<in> set db"
  have r: "r \<in> set db" "c_id r = key a" using find_row_Some [OF assms(2)] by auto
  show "(if guard a x then upd a x else x) = (if c_id x = key a then upd a r else x)"
  proof (cases "c_id x = key a")
    case True
    then have "x = r" using primary_key_eq [OF assms(1) x r(1)] r(2) by simp
    with assms(3) True show ?thesis by simp
  next
    case False
    then show ?thesis using guard_key by auto
  qed
qed

end

end
