(* ===== verification/Samples.thy ===== *)
theory Samples
  imports Postgres
begin

text \<open>
  Concrete inputs at which the hypotheses of the properties are discharged: a healthy
  environment whose clock reads a few seconds after the epoch, a repository handle, and a
  request the library admits.
\<close>

definition sample_clock :: clock where
  "sample_clock n i = 5000000"

definition sample_script :: script where
  "sample_script = \<lparr>s_entropy = \<lparr>reader_bytes = replicate 32 0, reader_error = Sentinel io_EOF\<rparr>,
     s_begin = None, s_fault = (\<lambda>_. None), s_clock = sample_clock, s_locked = [], s_later = id, s_delivered = 0,
     s_isolation = ''read committed'', s_commit = None, s_commit_applied = True, s_rollback = None\<rparr>"

definition sample_repository :: repository where
  "sample_repository = Some \<lparr>database = Boxed Pointer False\<rparr>"

definition sample_ctx :: ctx where
  "sample_ctx = Boxed Pointer False"

definition sample_id :: string where
  "sample_id = replicate 32 (CHR ''0'')"

definition sample_token :: string where
  "sample_token = replicate 64 (CHR ''0'')"

definition sample_request :: EnqueueRequest where
  "sample_request = \<lparr>Enqueue_Queue = ''q'', Enqueue_Kind = ''k'', Enqueue_Payload = None,
     Enqueue_IdempotencyKey = ''key'', Enqueue_MaxAttempts = 2, Enqueue_AvailableAt = zero_time\<rparr>"

lemma sample_healthy [simp]: "healthy sample_script"
  by (simp add: sample_script_def healthy_def)

lemma sample_usable [simp]: "usable sample_repository sample_ctx"
  by (simp add: usable_def sample_repository_def sample_ctx_def nilLike_def)

lemma sample_clock_sane [simp]: "clock_sane sample_clock"
  by (simp add: clock_sane_def sample_clock_def)

lemma sample_script_simps [simp]: "s_clock sample_script = sample_clock" "s_locked sample_script = []"
  "s_later sample_script db = db"
  "s_isolation sample_script = ''read committed''"
  by (simp_all add: sample_script_def)

lemma EncodeToString_zeros: "EncodeToString (replicate n 0) = replicate (2 * n) (CHR ''0'')"
  by (induction n) (simp_all add: hex_digit_def)

lemma sample_newJobID [simp]: "newJobID (s_entropy sample_script) = Inr sample_id"
  using EncodeToString_zeros [of 16]
  by (simp add: newJobID_def newOpaqueID_def ReadFull_def sample_script_def sample_id_def take_replicate)

lemma sample_newLeaseToken [simp]: "newLeaseToken (s_entropy sample_script) = Inr sample_token"
  using EncodeToString_zeros [of 32]
  by (simp add: newLeaseToken_def newOpaqueID_def ReadFull_def sample_script_def sample_token_def take_replicate)

lemma sample_names [simp]: "name_ok 128 ''q''" "name_ok 128 ''k''"
  by (simp_all add: name_ok_def name_char_def ord_def)

lemma sample_request_valid [simp]: "validateEnqueue sample_request = None"
proof -
  have "clean_text ''key''" by (rule clean_text_ascii) (simp add: ord_def)
  then show ?thesis by (simp add: validateEnqueue_None sample_request_def)
qed

lemma sample_request_time [simp]: "time_ok (Enqueue_AvailableAt sample_request)"
  by (simp add: sample_request_def time_ok_def zero_time_def)


text \<open>A running row whose lease is live at the sample clock, and its lease.\<close>

definition sample_running :: row where
  "sample_running =
     \<lparr>c_id = sample_id, c_queue = ''q'', c_kind = ''k'', c_payload = [1, 2],
      c_idempotency_key = None, c_request_fingerprint = replicate 32 0,
      c_state = ''running'', c_attempts = 1, c_max_attempts = 2,
      c_available_at = 1000000, c_created_at = 1000000, c_updated_at = 2000000,
      c_lease_token = Some sample_token, c_lease_owner = Some ''w'', c_lease_until = Some 9000000,
      c_last_error = '''', c_finished_at = None\<rparr>"

definition sample_lease :: Lease where
  "sample_lease = \<lparr>Lease_JobID = sample_id, Lease_Token = sample_token\<rparr>"

lemma clean_text_empty [simp]: "clean_text ''''"
  by (rule clean_text_ascii) simp

lemma sample_worker [simp]: "clean_text ''w''"
  by (rule clean_text_ascii) (simp add: ord_def)

lemma sample_row_ok [simp]: "row_ok sample_running"
  by (rule row_okI)
    (use newJobID_ok [OF sample_newJobID] newLeaseToken_ok [OF sample_newLeaseToken] in
      \<open>simp_all add: sample_running_def row_shape_def known_states_def state_defs pg_instant_def pg_finite_def pg_zero_def\<close>)

end
