(* ===== verification/Enqueue.thy ===== *)
theory Enqueue
  imports Table Samples
begin

text \<open>
  \<^verbatim>\<open>enqueue.go\<close>: the insert with its idempotency fallback, in a library-owned
  transaction (\<^verbatim>\<open>Enqueue\<close>) or in the caller's (\<^verbatim>\<open>EnqueueTx\<close>). SHA-256 is the
  parameter \<open>sha256\<close>; what the library relies on is that digests have 32 bytes
  (\<open>sha256_size\<close>).
\<close>

section \<open>Statements\<close>

text \<open>\<^verbatim>\<open>NULLIF($5, '')\<close>.\<close>

definition nullif_empty :: "string \<Rightarrow> string option" where
  "nullif_empty s = (if s = [] then None else Some s)"

text \<open>
  The row \<^verbatim>\<open>enqueueSQL\<close> inserts: its eight columns and the defaults of the schema.
  Clock reading 0 is the \<^verbatim>\<open>COALESCE\<close>, 1 and 2 the defaults of \<^verbatim>\<open>created_at\<close> and
  \<^verbatim>\<open>updated_at\<close>.
\<close>

definition inserted_row ::
  "clock \<Rightarrow> string \<Rightarrow> string \<Rightarrow> string \<Rightarrow> bytes \<Rightarrow> string \<Rightarrow> bytes \<Rightarrow> int \<Rightarrow> timestamptz option \<Rightarrow> row" where
  "inserted_row clk i queue kind payload key fingerprint maxattempts available =
     \<lparr>c_id = i, c_queue = queue, c_kind = kind, c_payload = payload,
      c_idempotency_key = nullif_empty key, c_request_fingerprint = fingerprint,
      c_state = ''pending'', c_attempts = 0, c_max_attempts = maxattempts,
      c_available_at = (case available of Some t \<Rightarrow> t | None \<Rightarrow> clk 0 i),
      c_created_at = clk 1 i, c_updated_at = clk 2 i,
      c_lease_token = None, c_lease_owner = None, c_lease_until = None,
      c_last_error = '''', c_finished_at = None\<rparr>"

text \<open>
  \<^verbatim>\<open>INSERT ... ON CONFLICT (queue, idempotency_key) DO NOTHING RETURNING\<close>: constraints
  first, then the arbiter index, then the primary key. A nil payload would be SQL NULL.
\<close>

definition enqueueSQL ::
  "clock \<Rightarrow> string \<Rightarrow> string \<Rightarrow> string \<Rightarrow> bytes option \<Rightarrow> string \<Rightarrow> bytes \<Rightarrow> int \<Rightarrow> timestamptz option \<Rightarrow> stmt" where
  "enqueueSQL clk i queue kind payload key fingerprint maxattempts available db =
     (case payload of
        None \<Rightarrow> Inl (Opaque ''null value in column payload violates not-null constraint'')
      | Some p \<Rightarrow>
         (let r = inserted_row clk i queue kind p key fingerprint maxattempts available
          in if \<not> storable r then Inl (Opaque ''new row violates check constraint'')
             else if list_ex (key_conflict queue (nullif_empty key)) db then Inr ([], db)
             else if i \<in> set (map c_id db)
             then Inl (Opaque ''duplicate key value violates unique constraint'')
             else Inr ([r], db @ [r])))"

definition idempotentJobSQL :: "string \<Rightarrow> string \<Rightarrow> stmt" where
  "idempotentJobSQL queue key = sql_select (key_conflict queue (Some key))"

section \<open>Operations\<close>

definition availableArgument :: "go_time \<Rightarrow> timestamptz option" where
  "availableArgument value = (if IsZero value then None else Some (pg_of_time value))"

text \<open>\<open>n\<close> is the number of statements already sent in the transaction.\<close>

definition enqueuePrepared ::
  "(bytes \<Rightarrow> bytes) \<Rightarrow> script \<Rightarrow> nat \<Rightarrow> EnqueueRequest \<Rightarrow> (Job \<times> bool) body" where
  "enqueuePrepared sha256 s n request db =
     (case newJobID (s_entropy s) of
        Inl err \<Rightarrow> (db, (zero_Job, False), Some err)
      | Inr i \<Rightarrow>
         (let fingerprint = requestFingerprint sha256 request;
              (row, db1) = query_row s n (enqueueSQL (s_clock s) i (Enqueue_Queue request)
                (Enqueue_Kind request) (Enqueue_Payload request) (Enqueue_IdempotencyKey request)
                fingerprint (Enqueue_MaxAttempts request)
                (availableArgument (Enqueue_AvailableAt request))) db
          in case scanJob row of
               Inr job \<Rightarrow> (db1, (job, True), None)
             | Inl err \<Rightarrow>
                if \<not> errors_Is err pgx_ErrNoRows
                then (db1, (zero_Job, False), Some (errorf_wrap ''insert job'' err))
                else if Enqueue_IdempotencyKey request = ''''
                then (db1, (zero_Job, False),
                      Some (Opaque ''insert job returned no row without an idempotency key''))
                else (case scanJobWithFingerprint (fst (query_row s (Suc n)
                        (idempotentJobSQL (Enqueue_Queue request) (Enqueue_IdempotencyKey request)) (s_later s db1))) of
                           Inl err \<Rightarrow> (db1, (zero_Job, False), Some (errorf_wrap ''read idempotent job'' err))
                         | Inr (stored, job) \<Rightarrow>
                             if length stored \<noteq> length fingerprint \<or> stored \<noteq> fingerprint
                             then (db1, (zero_Job, False), Some (Sentinel ErrIdempotencyConflict))
                             else (db1, (job, False), None))))"

definition Enqueue ::
  "(bytes \<Rightarrow> bytes) \<Rightarrow> script \<Rightarrow> repository \<Rightarrow> ctx \<Rightarrow> EnqueueRequest \<Rightarrow> (Job \<times> bool) body" where
  "Enqueue sha256 s repository ctx request db =
     (if (case repository of None \<Rightarrow> True | Some p \<Rightarrow> database p = NilInterface)
      then (db, (zero_Job, False), Some (invalid ''repository is required''))
      else if ctx = NilInterface then (db, (zero_Job, False), Some (invalid ''context is required''))
      else case prepareEnqueue request of
        (_, Some err) \<Rightarrow> (db, (zero_Job, False), Some err)
      | (prepared, None) \<Rightarrow>
          transact ctx s (zero_Job, False) (enqueuePrepared sha256 s 0 prepared) db)"

definition validateEnqueueTxIsolation :: "script \<Rightarrow> error" where
  "validateEnqueueTxIsolation s =
     (case s_fault s 0 of
        Some err \<Rightarrow> Some (errorf_wrap ''inspect enqueue transaction isolation'' err)
      | None \<Rightarrow>
          if s_isolation s \<noteq> ''read committed''
          then Some (invalid (''EnqueueTx requires Read Committed isolation, got \"'' @ s_isolation s @ ''\"''))
          else None)"

text \<open>\<^verbatim>\<open>EnqueueTx\<close> works on the caller's view of the table and neither commits nor rolls back.\<close>

definition EnqueueTx ::
  "(bytes \<Rightarrow> bytes) \<Rightarrow> script \<Rightarrow> repository \<Rightarrow> ctx \<Rightarrow> go_any \<Rightarrow> EnqueueRequest \<Rightarrow> (Job \<times> bool) body" where
  "EnqueueTx sha256 s repository ctx transaction request db =
     (if (case repository of None \<Rightarrow> True | Some p \<Rightarrow> database p = NilInterface) \<or> ctx = NilInterface \<or>
        nilLike transaction
      then (db, (zero_Job, False), Some (invalid ''repository, context, and transaction are required''))
      else case or_else (validateEnqueue request) (validateEnqueueTxIsolation s) of
        Some err \<Rightarrow> (db, (zero_Job, False), Some err)
      | None \<Rightarrow> enqueuePrepared sha256 s 1 (cloneEnqueue request) db)"

section \<open>The table invariant\<close>

definition sha256_size :: "(bytes \<Rightarrow> bytes) \<Rightarrow> bool" where
  "sha256_size sha256 \<longleftrightarrow> (\<forall>b. length (sha256 b) = 32)"

lemma inserted_row_ok:
  assumes "validateEnqueue request = None" "time_ok (Enqueue_AvailableAt request)" "job_id_ok i"
    "clock_sane clk" "length fp = 32"
  shows "row_ok (inserted_row clk i (Enqueue_Queue request) (Enqueue_Kind request)
    (slice_bytes (Enqueue_Payload request)) (Enqueue_IdempotencyKey request) fp
    (Enqueue_MaxAttempts request) (availableArgument (Enqueue_AvailableAt request)))"
proof (rule row_okI, goal_cases)
  case 12
  have "pg_instant (pg_of_time t)" if "time_ok t" "isPostgreSQLTimestamp t" for t
    using isPostgreSQLTimestamp_roundtrip that by blast
  then show ?case
    using assms(1,2) clock_sane_instant [OF assms(4), of 0]
    by (auto simp: inserted_row_def availableArgument_def validateEnqueue_None)
qed (use assms clock_sane_instant [OF assms(4), of 0] in
    \<open>simp_all add: inserted_row_def validateEnqueue_None nullif_empty_def row_shape_def known_states_def state_defs\<close>)

lemma db_ok_insert:
  assumes "db_ok db" "row_ok r" "c_id r \<notin> set (map c_id db)" "\<not> list_ex (key_conflict (c_queue r) (c_idempotency_key r)) db"
  shows "db_ok (db @ [r])"
  using assms
  by (auto simp: db_ok_def primary_key_def gotth_jobs_idempotency_def key_conflict_def list_ex_iff)

lemma inserted_row_simps [simp]:
  "c_id (inserted_row clk i q k p key fp m a) = i" "c_queue (inserted_row clk i q k p key fp m a) = q"
  "c_idempotency_key (inserted_row clk i q k p key fp m a) = nullif_empty key"
  "c_kind (inserted_row clk i q k p key fp m a) = k" "c_payload (inserted_row clk i q k p key fp m a) = p"
  "c_request_fingerprint (inserted_row clk i q k p key fp m a) = fp"
  "c_max_attempts (inserted_row clk i q k p key fp m a) = m" "c_attempts (inserted_row clk i q k p key fp m a) = 0"
  "c_state (inserted_row clk i q k p key fp m a) = StatePending"
  "c_created_at (inserted_row clk i q k p key fp m a) = clk 1 i"
  "c_updated_at (inserted_row clk i q k p key fp m a) = clk 2 i"
  "c_lease_token (inserted_row clk i q k p key fp m a) = None"
  "c_lease_owner (inserted_row clk i q k p key fp m a) = None"
  "c_lease_until (inserted_row clk i q k p key fp m a) = None"
  "c_last_error (inserted_row clk i q k p key fp m a) = []"
  "c_finished_at (inserted_row clk i q k p key fp m a) = None"
  by (simp_all add: inserted_row_def StatePending_def)

text \<open>The row an admitted request is stored as, and the insert's outcome on a sound table.\<close>

definition request_row :: "(bytes \<Rightarrow> bytes) \<Rightarrow> clock \<Rightarrow> string \<Rightarrow> EnqueueRequest \<Rightarrow> row" where
  "request_row sha256 clk i request =
     inserted_row clk i (Enqueue_Queue request) (Enqueue_Kind request)
       (slice_bytes (Enqueue_Payload request)) (Enqueue_IdempotencyKey request)
       (requestFingerprint sha256 request) (Enqueue_MaxAttempts request)
       (availableArgument (Enqueue_AvailableAt request))"

definition enqueue_admitted :: "(bytes \<Rightarrow> bytes) \<Rightarrow> script \<Rightarrow> EnqueueRequest \<Rightarrow> bool" where
  "enqueue_admitted sha256 s request \<longleftrightarrow>
     validateEnqueue request = None \<and> time_ok (Enqueue_AvailableAt request) \<and>
     clock_sane (s_clock s) \<and> sha256_size sha256"

lemma request_row_ok:
  "enqueue_admitted sha256 s request \<Longrightarrow> job_id_ok i \<Longrightarrow> row_ok (request_row sha256 (s_clock s) i request)"
  by (simp add: request_row_def enqueue_admitted_def inserted_row_ok requestFingerprint_def sha256_size_def)

lemma query_enqueue:
  assumes "enqueue_admitted sha256 s request" "job_id_ok i" "Enqueue_Payload request = Some p"
  shows "query_row s n (enqueueSQL (s_clock s) i (Enqueue_Queue request) (Enqueue_Kind request)
      (Enqueue_Payload request) (Enqueue_IdempotencyKey request) (requestFingerprint sha256 request)
      (Enqueue_MaxAttempts request) (availableArgument (Enqueue_AvailableAt request))) db =
    (case s_fault s n of
       Some e \<Rightarrow> (Inl e, db)
     | None \<Rightarrow>
        if list_ex (key_conflict (Enqueue_Queue request) (nullif_empty (Enqueue_IdempotencyKey request))) db
        then (Inl (Sentinel pgx_ErrNoRows), db)
        else if i \<in> set (map c_id db)
        then (Inl (Opaque ''duplicate key value violates unique constraint''), db)
        else (Inr (raw_of_row (request_row sha256 (s_clock s) i request)),
              db @ [request_row sha256 (s_clock s) i request]))"
  using row_ok_storable [OF request_row_ok [OF assms(1,2)]] assms(3)
  by (cases "s_fault s n") (simp_all add: query_row_def run_stmt_def enqueueSQL_def request_row_def Let_def)

lemma enqueuePrepared_cases:
  assumes "enqueuePrepared sha256 s n (cloneEnqueue request) db = (db', v, err)"
    "enqueue_admitted sha256 s request"
  obtains (kept) "db' = db" "snd v = False"
  | (inserted) i where "job_id_ok i" "newJobID (s_entropy s) = Inr i" "i \<notin> set (map c_id db)"
      "\<not> list_ex (key_conflict (Enqueue_Queue request) (nullif_empty (Enqueue_IdempotencyKey request))) db"
      "db' = db @ [request_row sha256 (s_clock s) i (cloneEnqueue request)]"
      "v = (job_of_row (request_row sha256 (s_clock s) i (cloneEnqueue request)), True)" "err = None"
proof (cases "newJobID (s_entropy s)")
  case (Inl e)
  with assms(1) kept show ?thesis by (auto simp: enqueuePrepared_def)
next
  case (Inr i)
  let ?req = "cloneEnqueue request"
  have i: "job_id_ok i" using Inr by (rule newJobID_ok)
  have adm: "enqueue_admitted sha256 s ?req" using assms(2) by (simp add: enqueue_admitted_def)
  note q = query_enqueue [OF adm i, of "slice_bytes (Enqueue_Payload request)" n db,
      unfolded cloneEnqueue_simps, OF refl]
  show ?thesis
  proof (cases "s_fault s n = None \<and>
      \<not> list_ex (key_conflict (Enqueue_Queue request) (nullif_empty (Enqueue_IdempotencyKey request))) db \<and>
      i \<notin> set (map c_id db)")
    case True
    with assms(1) Inr q have "db' = db @ [request_row sha256 (s_clock s) i ?req]"
      "v = (job_of_row (request_row sha256 (s_clock s) i ?req), True)" "err = None"
      using request_row_ok [OF adm i] by (simp_all add: enqueuePrepared_def requestFingerprint_def)
    with True i Inr inserted show ?thesis by blast
  next
    case False
    then have "\<exists>e. query_row s n (enqueueSQL (s_clock s) i (Enqueue_Queue request) (Enqueue_Kind request)
        (Some (slice_bytes (Enqueue_Payload request))) (Enqueue_IdempotencyKey request)
        (requestFingerprint sha256 ?req) (Enqueue_MaxAttempts request)
        (availableArgument (Enqueue_AvailableAt request))) db = (Inl e, db)"
      unfolding q by (cases "s_fault s n") auto
    then obtain e where e: "query_row s n (enqueueSQL (s_clock s) i (Enqueue_Queue request) (Enqueue_Kind request)
        (Some (slice_bytes (Enqueue_Payload request))) (Enqueue_IdempotencyKey request)
        (requestFingerprint sha256 ?req) (Enqueue_MaxAttempts request)
        (availableArgument (Enqueue_AvailableAt request))) db = (Inl e, db)" by blast
    from assms(1) have "db' = db \<and> snd v = False"
      by (auto simp: enqueuePrepared_def Inr e Let_def split: if_splits sum.splits prod.splits)
    then show ?thesis using kept by blast
  qed
qed

lemma enqueuePrepared_db_ok:
  assumes "enqueuePrepared sha256 s n (cloneEnqueue request) db = (db', v, err)"
    "enqueue_admitted sha256 s request" "db_ok db"
  shows "db_ok db'"
  using assms(1,2)
proof (cases rule: enqueuePrepared_cases)
  case kept
  with assms(3) show ?thesis by simp
next
  case (inserted i)
  have "enqueue_admitted sha256 s (cloneEnqueue request)" using assms(2) by (simp add: enqueue_admitted_def)
  from request_row_ok [OF this inserted(1)] inserted(3,4,5) assms(3) show ?thesis
    by (simp add: db_ok_insert request_row_def)
qed

section \<open>Behaviour of Enqueue\<close>

lemma Enqueue_run:
  assumes "usable repository ctx" "validateEnqueue request = None"
  shows "Enqueue sha256 s repository ctx request db =
    transact ctx s (zero_Job, False) (enqueuePrepared sha256 s 0 (cloneEnqueue request)) db"
  using usable_D [OF assms(1)] assms(2) by (simp add: Enqueue_def prepareEnqueue_def)

lemma idempotency_unique:
  assumes "db_ok db" "r \<in> set db" "c_idempotency_key r \<noteq> None"
  shows "filter (key_conflict (c_queue r) (c_idempotency_key r)) db = [r]"
proof -
  let ?k = "\<lambda>r. (c_queue r, c_idempotency_key r)"
  let ?f = "filter (\<lambda>r. c_idempotency_key r \<noteq> None) db"
  have inj: "inj_on ?k (set ?f)" using db_ok_D(2) [OF assms(1)] by (simp add: gotth_jobs_idempotency_def distinct_map)
  have "x = r" if "x \<in> set db" "key_conflict (c_queue r) (c_idempotency_key r) x" for x
    using inj_onD [OF inj, of x r] that assms(2,3) by (simp add: key_conflict_def)
  then have "set (filter (key_conflict (c_queue r) (c_idempotency_key r)) db) = {r}"
    using assms(2,3) by (auto simp: key_conflict_def)
  moreover have "distinct (filter (key_conflict (c_queue r) (c_idempotency_key r)) db)"
    using db_ok_D(1) [OF assms(1)] by (simp add: primary_key_def distinct_map)
  ultimately show ?thesis by (intro distinct_singleton)
qed

text \<open>What a stored duplicate decides, for any stored fingerprint.\<close>

lemma enqueuePrepared_duplicate:
  assumes "enqueue_admitted sha256 s request" "healthy s" "newJobID (s_entropy s) = Inr i" "db_ok (s_later s db)"
    "r \<in> set (s_later s db)" "c_queue r = Enqueue_Queue request"
    "c_idempotency_key r = Some (Enqueue_IdempotencyKey request)" "r0 \<in> set db" "identity r = identity r0"
  shows "enqueuePrepared sha256 s n (cloneEnqueue request) db =
    (if c_request_fingerprint r = requestFingerprint sha256 request then (db, (job_of_row r, False), None)
     else (db, (zero_Job, False), Some (Sentinel ErrIdempotencyConflict)))"
proof -
  let ?req = "cloneEnqueue request"
  have adm: "enqueue_admitted sha256 s ?req" using assms(1) by (simp add: enqueue_admitted_def)
  have ok: "row_ok r" using assms(4,5) by (rule db_ok_D(3))
  have key: "Enqueue_IdempotencyKey request \<noteq> []" using row_ok_scalars(18) [OF ok] assms(7) by simp
  have fp: "requestFingerprint sha256 ?req = requestFingerprint sha256 request"
    by (simp add: requestFingerprint_def fingerprint_input_def)
  have conflict: "list_ex (key_conflict (Enqueue_Queue request) (nullif_empty (Enqueue_IdempotencyKey request))) db"
    using assms(6-8) identity_D(2,3) [OF assms(9)] key by (auto simp: list_ex_iff key_conflict_def nullif_empty_def)
  note q = query_enqueue [OF adm newJobID_ok [OF assms(3)], of "slice_bytes (Enqueue_Payload request)" n db,
      unfolded cloneEnqueue_simps, OF refl]
  have sel: "query_row s (Suc n) (idempotentJobSQL (Enqueue_Queue request) (Enqueue_IdempotencyKey request)) (s_later s db) =
      (Inr (raw_of_row r), s_later s db)"
    using idempotency_unique [OF assms(4,5)] assms(2,6,7)
    by (simp add: query_row_def run_stmt_def idempotentJobSQL_def sql_select_def)
  have len: "length (requestFingerprint sha256 request) = 32"
    using assms(1) by (simp add: enqueue_admitted_def sha256_size_def requestFingerprint_def)
  show ?thesis
    using q conflict assms(2,3) key sel ok row_ok_scalars(5) [OF ok] len
    by (auto simp: enqueuePrepared_def fp)
qed

text \<open>
  C27. A request with a fresh identifier and an unused key creates exactly one row, last in
  the table, and returns it with created=true: pending, no attempts spent, the requested
  queue, kind, payload bytes and budget, the requested idempotency key (SQL NULL when the
  request has none) beside the request's fingerprint, no lease, no error and no finish time,
  created and updated at the database clock, available at the requested instant or, when
  none was requested, at the database clock.
\<close>

theorem Enqueue_creates:
  assumes "enqueue_admitted sha256 s request" "usable repository ctx" "healthy s"
    "newJobID (s_entropy s) = Inr i" "i \<notin> c_id ` set db"
    "Enqueue_IdempotencyKey request \<noteq> [] \<longrightarrow>
      (\<forall>r \<in> set db. c_queue r = Enqueue_Queue request \<longrightarrow>
        c_idempotency_key r \<noteq> Some (Enqueue_IdempotencyKey request))"
  shows "\<exists>r. Enqueue sha256 s repository ctx request db = (db @ [r], (job_of_row r, True), None) \<and>
    row_ok r \<and> c_id r = i \<and> c_state r = StatePending \<and> c_attempts r = 0 \<and>
    c_queue r = Enqueue_Queue request \<and> c_kind r = Enqueue_Kind request \<and>
    c_payload r = slice_bytes (Enqueue_Payload request) \<and>
    c_max_attempts r = Enqueue_MaxAttempts request \<and>
    c_idempotency_key r =
      (if Enqueue_IdempotencyKey request = [] then None else Some (Enqueue_IdempotencyKey request)) \<and>
    c_request_fingerprint r = requestFingerprint sha256 request \<and>
    c_created_at r = s_clock s 1 i \<and> c_updated_at r = s_clock s 2 i \<and>
    c_lease_token r = None \<and> c_lease_owner r = None \<and> c_lease_until r = None \<and>
    c_last_error r = [] \<and> c_finished_at r = None \<and>
    Job_AvailableAt (job_of_row r) =
      (if IsZero (Enqueue_AvailableAt request) then time_of_pg (s_clock s 0 i) else Enqueue_AvailableAt request)"
proof -
  let ?req = "cloneEnqueue request"
  have adm: "enqueue_admitted sha256 s ?req" using assms(1) by (simp add: enqueue_admitted_def)
  have v: "validateEnqueue request = None" and t: "time_ok (Enqueue_AvailableAt request)"
    using assms(1) by (simp_all add: enqueue_admitted_def)
  have i: "job_id_ok i" using assms(4) by (rule newJobID_ok)
  let ?r = "request_row sha256 (s_clock s) i ?req"
  have fresh: "\<not> list_ex (key_conflict (Enqueue_Queue request) (nullif_empty (Enqueue_IdempotencyKey request))) db"
    using assms(6) by (auto simp: list_ex_iff key_conflict_def nullif_empty_def)
  note q = query_enqueue [OF adm i, of "slice_bytes (Enqueue_Payload request)" 0 db,
      unfolded cloneEnqueue_simps, OF refl]
  have ok: "row_ok ?r" using request_row_ok [OF adm i] .
  have "enqueuePrepared sha256 s 0 ?req db = (db @ [?r], (job_of_row ?r, True), None)"
    using q fresh assms(3,4,5) ok by (simp add: enqueuePrepared_def)
  then have "Enqueue sha256 s repository ctx request db = (db @ [?r], (job_of_row ?r, True), None)"
    using assms(2,3) v usable_D(1) [OF assms(2)] by (simp add: Enqueue_run transact_run)
  moreover have "Job_AvailableAt (job_of_row ?r) =
      (if IsZero (Enqueue_AvailableAt request) then time_of_pg (s_clock s 0 i) else Enqueue_AvailableAt request)"
    using v isPostgreSQLTimestamp_roundtrip(1) [OF t]
    by (auto simp: request_row_def inserted_row_def availableArgument_def validateEnqueue_None)
  ultimately show ?thesis
    using ok by (intro exI [of _ ?r])
      (simp add: request_row_def requestFingerprint_def fingerprint_input_def nullif_empty_def)
qed

definition sample_sha256 :: "bytes \<Rightarrow> bytes" where
  "sample_sha256 b = (if b = fingerprint_input sample_request then replicate 32 1 else replicate 32 0)"

lemma sample_admitted [simp]: "enqueue_admitted sample_sha256 sample_script sample_request"
  by (simp add: enqueue_admitted_def sha256_size_def sample_sha256_def)

theorem Enqueue_creates_witness:
  "\<exists>r. Enqueue sample_sha256 sample_script sample_repository sample_ctx sample_request [] =
       ([r], (job_of_row r, True), None) \<and> c_id r = sample_id \<and> c_state r = StatePending \<and> c_queue r = ''q'' \<and>
     c_idempotency_key r = Some ''key''"
  using Enqueue_creates [OF sample_admitted sample_usable sample_healthy sample_newJobID, of "[]"]
  by (auto simp: sample_request_def)

text \<open>
  C17. Exact idempotency. When a row with the request's queue and key is stored, created
  from an admitted request that does not collide with this one under SHA-256, then
  \<^verbatim>\<open>Enqueue\<close> changes nothing: if the two requests agree on queue, kind, payload, budget
  and availability it returns the stored job with created=false, as the job is when the
  second statement reads it, whatever others did to it since the insert was refused; and it
  returns \<^verbatim>\<open>ErrIdempotencyConflict\<close> if the requests differ in any of them.
\<close>

theorem Enqueue_idempotent:
  assumes "enqueue_admitted sha256 s request" "usable repository ctx" "healthy s"
    "newJobID (s_entropy s) = Inr i" "r0 \<in> set db" "c_queue r0 = Enqueue_Queue request"
    "c_idempotency_key r0 = Some (Enqueue_IdempotencyKey request)"
    "c_request_fingerprint r0 = requestFingerprint sha256 original"
    "db_ok (s_later s db)" "r \<in> set (s_later s db)" "identity r = identity r0"
    "validateEnqueue original = None" "time_ok (Enqueue_AvailableAt original)"
    "sha256 (fingerprint_input original) = sha256 (fingerprint_input request) \<longrightarrow>
       fingerprint_input original = fingerprint_input request"
  shows "Enqueue sha256 s repository ctx request db =
    (if same_request original request then (db, (job_of_row r, False), None)
     else (db, (zero_Job, False), Some (Sentinel ErrIdempotencyConflict)))"
proof -
  have v: "validateEnqueue request = None" and t: "time_ok (Enqueue_AvailableAt request)"
    using assms(1) by (simp_all add: enqueue_admitted_def)
  note r = identity_D [OF assms(11)]
  have "c_request_fingerprint r = requestFingerprint sha256 request \<longleftrightarrow> same_request original request"
    using assms(8,14) r(7) fingerprint_input_inject [OF assms(12) v assms(13) t] fingerprint_input_same
    by (auto simp: requestFingerprint_def)
  then have "enqueuePrepared sha256 s 0 (cloneEnqueue request) db =
    (if same_request original request then (db, (job_of_row r, False), None)
     else (db, (zero_Job, False), Some (Sentinel ErrIdempotencyConflict)))"
    using enqueuePrepared_duplicate [OF assms(1,3,4,9,10) _ _ assms(5,11)] r(2,3) assms(6,7) by simp
  then show ?thesis
    using usable_D(1) [OF assms(2)] assms(3)
    by (simp add: Enqueue_run [OF assms(2) v] transact_def)
qed

theorem Enqueue_idempotent_witness:
  "let other = sample_request\<lparr>Enqueue_MaxAttempts := 3\<rparr>;
       r = request_row sample_sha256 sample_clock sample_id sample_request
   in Enqueue sample_sha256 sample_script sample_repository sample_ctx sample_request [r] =
        ([r], (job_of_row r, False), None) \<and>
      Enqueue sample_sha256 sample_script sample_repository sample_ctx other [r] =
        ([r], (zero_Job, False), Some (Sentinel ErrIdempotencyConflict))"
proof -
  let ?other = "sample_request\<lparr>Enqueue_MaxAttempts := 3\<rparr>"
  let ?r = "request_row sample_sha256 sample_clock sample_id sample_request"
  have ok: "db_ok [?r]"
    using request_row_ok [OF sample_admitted newJobID_ok [OF sample_newJobID]]
    by (simp add: db_ok_def primary_key_def gotth_jobs_idempotency_def)
  have row: "?r \<in> set [?r]" "c_queue ?r = Enqueue_Queue sample_request"
    "c_idempotency_key ?r = Some (Enqueue_IdempotencyKey sample_request)"
    "c_request_fingerprint ?r = requestFingerprint sample_sha256 sample_request"
    by (simp_all add: request_row_def sample_request_def nullif_empty_def)
  have other: "enqueue_admitted sample_sha256 sample_script ?other" "\<not> same_request sample_request ?other"
    using sample_admitted sample_request_valid
    by (simp_all add: enqueue_admitted_def validateEnqueue_None same_request_def sample_request_def)
  have differ: "fingerprint_input sample_request \<noteq> fingerprint_input ?other"
    using other fingerprint_input_inject [OF sample_request_valid _ sample_request_time, of ?other]
    by (auto simp: enqueue_admitted_def)
  have later: "db_ok (s_later sample_script [?r])" "?r \<in> set (s_later sample_script [?r])" using ok by simp_all
  note same = Enqueue_idempotent [OF sample_admitted sample_usable sample_healthy sample_newJobID row later refl
      sample_request_valid sample_request_time]
  have "?r \<in> set [?r]" "c_queue ?r = Enqueue_Queue ?other" "c_idempotency_key ?r = Some (Enqueue_IdempotencyKey ?other)"
    using row by simp_all
  note diff = Enqueue_idempotent [OF other(1) sample_usable sample_healthy sample_newJobID this row(4) later refl
      sample_request_valid sample_request_time]
  have "sample_sha256 (fingerprint_input sample_request) \<noteq> sample_sha256 (fingerprint_input ?other)"
    using differ by (simp add: sample_sha256_def)
  then show ?thesis
    using same diff other(2) by (simp add: same_request_def)
qed

lemma Enqueue_cases:
  assumes "Enqueue sha256 s repository ctx request db = (db', v, err)"
  obtains "db' = db" | "validateEnqueue request = None"
    "transact ctx s (zero_Job, False) (enqueuePrepared sha256 s 0 (cloneEnqueue request)) db = (db', v, err)"
  using assms that by (auto simp: Enqueue_def prepareEnqueue_def split: if_splits option.splits)

lemma Enqueue_db_ok:
  assumes "Enqueue sha256 s repository ctx request db = (db', v, err)" "db_ok db"
    "time_ok (Enqueue_AvailableAt request)" "clock_sane (s_clock s)" "sha256_size sha256"
  shows "db_ok db'"
  using assms(1)
proof (cases rule: Enqueue_cases)
  case 2
  then have "enqueue_admitted sha256 s request" using assms(3-5) by (simp add: enqueue_admitted_def)
  with 2 assms(2) show ?thesis
    using enqueuePrepared_db_ok by (blast intro: transact_invariant)
qed (use assms in simp)

lemma EnqueueTx_db_ok:
  assumes "EnqueueTx sha256 s repository ctx tx request db = (db', v, err)" "db_ok db"
    "time_ok (Enqueue_AvailableAt request)" "clock_sane (s_clock s)" "sha256_size sha256"
  shows "db_ok db'"
proof (cases "validateEnqueue request")
  case None
  then have "enqueue_admitted sha256 s request" using assms(3-5) by (simp add: enqueue_admitted_def)
  with assms(1,2) None show ?thesis
    using enqueuePrepared_db_ok by (fastforce simp: EnqueueTx_def split: if_splits option.splits)
qed (use assms in \<open>auto simp: EnqueueTx_def split: if_splits\<close>)

section \<open>The caller's transaction\<close>

text \<open>
  The environment of \<^verbatim>\<open>EnqueueTx\<close>'s statements when they are sent in a transaction of the
  library's own that begins, commits and rolls back without an error: there is no isolation
  query, so every statement comes one place earlier.
\<close>

definition own_transaction :: "script \<Rightarrow> script" where
  "own_transaction s =
     s\<lparr>s_begin := None, s_fault := (\<lambda>n. s_fault s (Suc n)), s_commit := None, s_rollback := None\<rparr>"

lemma query_row_own_transaction: "query_row (own_transaction s) n st db = query_row s (Suc n) st db"
  by (simp add: query_row_def run_stmt_def own_transaction_def)

lemma enqueuePrepared_own_transaction:
  "enqueuePrepared sha256 (own_transaction s) n request db = enqueuePrepared sha256 s (Suc n) request db"
proof -
  have "s_entropy (own_transaction s) = s_entropy s" "s_clock (own_transaction s) = s_clock s"
    "s_later (own_transaction s) = s_later s"
    by (simp_all add: own_transaction_def)
  then show ?thesis by (simp only: enqueuePrepared_def query_row_own_transaction)
qed

lemma transact_own_transaction:
  assumes "ctx \<noteq> NilInterface" "operation db = (db', v, err)"
  shows "transact ctx (own_transaction s) zero operation db = (if err = None then db' else db, v, err)"
  using assms by (auto simp: transact_def own_transaction_def deferred_rollback_def split: option.splits)

text \<open>
  C40. \<^verbatim>\<open>EnqueueTx\<close> is \<^verbatim>\<open>Enqueue\<close> in the caller's transaction. Under Read Committed it
  gives, for every request and every fault of its statements, the job, the created flag and
  the error \<^verbatim>\<open>Enqueue\<close> gives for the same statements in a transaction of its own; where
  there is no error both leave the same table, and where there is one \<^verbatim>\<open>Enqueue\<close> rolls
  back while the caller keeps the decision. Under any other isolation, or when the isolation
  cannot be inspected, nothing is inserted and an error is returned, \<^verbatim>\<open>ErrInvalid\<close> in the
  first case.
\<close>

theorem EnqueueTx_equivalent:
  assumes "usable repository ctx" "\<not> nilLike transaction"
    "EnqueueTx sha256 s repository ctx transaction request db = (db', v, err)"
  shows "(s_fault s 0 = None \<and> s_isolation s = ''read committed'' \<longrightarrow>
      Enqueue sha256 (own_transaction s) repository ctx request db = (if err = None then db' else db, v, err)) \<and>
    (s_fault s 0 \<noteq> None \<or> s_isolation s \<noteq> ''read committed'' \<longrightarrow>
      db' = db \<and> v = (zero_Job, False) \<and> err \<noteq> None) \<and>
    (s_fault s 0 = None \<and> s_isolation s \<noteq> ''read committed'' \<longrightarrow> Is err ErrInvalid)"
proof (cases "validateEnqueue request")
  case None
  have "Enqueue sha256 (own_transaction s) repository ctx request db = (if err = None then db' else db, v, err)"
    if "s_fault s 0 = None" "s_isolation s = ''read committed''"
  proof -
    let ?body = "enqueuePrepared sha256 (own_transaction s) 0 (cloneEnqueue request)"
    have "?body db = (db', v, err)"
      using assms None usable_D [OF assms(1)] that
      by (simp add: enqueuePrepared_own_transaction EnqueueTx_def validateEnqueueTxIsolation_def)
    from transact_own_transaction [of ctx ?body db, OF usable_D(1) [OF assms(1)] this] show ?thesis
      by (simp only: Enqueue_run [OF assms(1) None])
  qed
  then show ?thesis
    using assms None usable_D [OF assms(1)]
    by (auto simp: EnqueueTx_def validateEnqueueTxIsolation_def split: option.splits)
next
  case (Some e)
  have "errors_Is e ErrInvalid" using validation_ErrInvalid(1) [OF Some] .
  with Some show ?thesis
    using assms usable_D [OF assms(1)] by (simp add: EnqueueTx_def Enqueue_def prepareEnqueue_def) auto
qed

theorem EnqueueTx_equivalent_witness:
  "(\<exists>r. EnqueueTx sample_sha256 sample_script sample_repository sample_ctx (Boxed Pointer False) sample_request [] =
       ([r], (job_of_row r, True), None) \<and>
     Enqueue sample_sha256 (own_transaction sample_script) sample_repository sample_ctx sample_request [] =
       ([r], (job_of_row r, True), None)) \<and>
   (\<exists>err. EnqueueTx sample_sha256 (sample_script\<lparr>s_isolation := ''serializable''\<rparr>) sample_repository sample_ctx
       (Boxed Pointer False) sample_request [] = ([], (zero_Job, False), err) \<and> Is err ErrInvalid)"
proof -
  let ?tx = "Boxed Pointer False"
  let ?s = "sample_script\<lparr>s_isolation := ''serializable''\<rparr>"
  let ?r = "request_row sample_sha256 sample_clock sample_id (cloneEnqueue sample_request)"
  have tx: "\<not> nilLike ?tx" and faults: "s_fault sample_script = (\<lambda>_. None)" "s_isolation ?s = ''serializable''"
    by (simp_all add: nilLike_def sample_script_def)
  have adm: "enqueue_admitted sample_sha256 sample_script (cloneEnqueue sample_request)"
    using sample_admitted by (simp add: enqueue_admitted_def)
  have "enqueuePrepared sample_sha256 sample_script 1 (cloneEnqueue sample_request) [] = ([?r], (job_of_row ?r, True), None)"
    using query_enqueue [OF adm newJobID_ok [OF sample_newJobID], of "slice_bytes (Enqueue_Payload sample_request)" 1 "[]",
        unfolded cloneEnqueue_simps, OF refl] request_row_ok [OF adm newJobID_ok [OF sample_newJobID]] faults(1)
    by (simp add: enqueuePrepared_def)
  then have run: "EnqueueTx sample_sha256 sample_script sample_repository sample_ctx ?tx sample_request [] =
      ([?r], (job_of_row ?r, True), None)"
    using usable_D [OF sample_usable] tx faults by (simp add: EnqueueTx_def validateEnqueueTxIsolation_def)
  obtain db' v err where other:
    "EnqueueTx sample_sha256 ?s sample_repository sample_ctx ?tx sample_request [] = (db', v, err)"
    using prod_cases3 by blast
  from EnqueueTx_equivalent [OF sample_usable tx other] faults
  have "db' = []" "v = (zero_Job, False)" "Is err ErrInvalid" by simp_all
  then have refused: "\<exists>err. EnqueueTx sample_sha256 ?s sample_repository sample_ctx ?tx sample_request [] =
      ([], (zero_Job, False), err) \<and> Is err ErrInvalid" using other by blast
  have "Enqueue sample_sha256 (own_transaction sample_script) sample_repository sample_ctx sample_request [] =
      ([?r], (job_of_row ?r, True), None)"
    using EnqueueTx_equivalent [OF sample_usable tx run] faults(1) by simp
  with run refused show ?thesis by blast
qed

end
