(* ===== verification/Lifecycle.thy ===== *)
theory Lifecycle
  imports Table Samples
begin

text \<open>
  \<^verbatim>\<open>lifecycle.go\<close>: claiming, heartbeat, completion and failure. Each SQL constant is a
  definition of its effect on the table. \<^verbatim>\<open>clock_timestamp()\<close> is read once per textual
  occurrence and row; the number of the reading is noted at each definition. The three
  fenced statements interpret \<open>keyed_update\<close>.
\<close>

section \<open>claimSQL\<close>

definition expired :: "timestamptz \<Rightarrow> row \<Rightarrow> bool" where
  "expired now r = (case c_lease_until r of Some u \<Rightarrow> u \<le> now | None \<Rightarrow> False)"

definition until_key :: "row \<Rightarrow> timestamptz" where
  "until_key r = (case c_lease_until r of Some u \<Rightarrow> u | None \<Rightarrow> 0)"

text \<open>Reading 0.\<close>

definition exhausted_match :: "clock \<Rightarrow> string \<Rightarrow> row \<Rightarrow> bool" where
  "exhausted_match clk queue r \<longleftrightarrow>
     c_queue r = queue \<and> c_state r = ''running'' \<and> expired (clk 0 (c_id r)) r \<and>
     c_attempts r \<ge> c_max_attempts r"

definition expired_exhausted :: "clock \<Rightarrow> string list \<Rightarrow> string \<Rightarrow> db \<Rightarrow> row list" where
  "expired_exhausted clk locked queue db =
     top_by (\<lambda>r. (until_key r, c_created_at r, c_id r)) 100
       (filter (\<lambda>r. exhausted_match clk queue r \<and> c_id r \<notin> set locked) db)"

text \<open>Readings 1 and 2.\<close>

definition exhausted_row :: "clock \<Rightarrow> row \<Rightarrow> row" where
  "exhausted_row clk r =
     r\<lparr>c_state := ''dead'', c_lease_token := None, c_lease_owner := None, c_lease_until := None,
       c_finished_at := Some (clk 1 (c_id r)), c_updated_at := clk 2 (c_id r),
       c_last_error := ''lease expired after final attempt''\<rparr>"

text \<open>Readings 3 (pending) and 4 (running).\<close>

definition claim_eligible :: "clock \<Rightarrow> string \<Rightarrow> row \<Rightarrow> bool" where
  "claim_eligible clk queue r \<longleftrightarrow>
     c_queue r = queue \<and>
     ((c_state r = ''pending'' \<and> c_available_at r \<le> clk 3 (c_id r)) \<or>
      (c_state r = ''running'' \<and> expired (clk 4 (c_id r)) r \<and> c_attempts r < c_max_attempts r))"

definition claim_key :: "row \<Rightarrow> timestamptz \<times> timestamptz \<times> string" where
  "claim_key r = (if c_state r = ''pending'' then c_available_at r else until_key r, c_created_at r, c_id r)"

definition claim_candidate :: "clock \<Rightarrow> string list \<Rightarrow> string \<Rightarrow> db \<Rightarrow> row list" where
  "claim_candidate clk locked queue db =
     top_by claim_key 1 (filter (\<lambda>r. claim_eligible clk queue r \<and> c_id r \<notin> set locked) db)"

text \<open>Readings 5 and 6; the interval is the lease in microseconds.\<close>

definition claimed_row :: "clock \<Rightarrow> string \<Rightarrow> string \<Rightarrow> int \<Rightarrow> row \<Rightarrow> row" where
  "claimed_row clk token worker us r =
     r\<lparr>c_state := ''running'', c_attempts := c_attempts r + 1, c_lease_token := Some token,
       c_lease_owner := Some worker, c_lease_until := Some (clk 5 (c_id r) + us),
       c_updated_at := clk 6 (c_id r), c_finished_at := None,
       c_last_error := (if c_state r = ''running'' then ''lease expired before acknowledgement''
                        else c_last_error r)\<rparr>"

text \<open>
  Both updates work on the statement's snapshot; the rows they touch are disjoint
  (\<open>claim_disjoint\<close> below), so their order does not matter.
\<close>

definition claim_step :: "clock \<Rightarrow> string list \<Rightarrow> string \<Rightarrow> string \<Rightarrow> string \<Rightarrow> int \<Rightarrow> db \<Rightarrow> row \<Rightarrow> row" where
  "claim_step clk locked queue token worker us db r =
     (if c_id r \<in> set (map c_id (expired_exhausted clk locked queue db)) then exhausted_row clk r
      else if c_id r \<in> set (map c_id (claim_candidate clk locked queue db))
      then claimed_row clk token worker us r else r)"

definition claimSQL :: "clock \<Rightarrow> string list \<Rightarrow> string \<Rightarrow> string \<Rightarrow> string \<Rightarrow> int \<Rightarrow> stmt" where
  "claimSQL clk locked queue token worker us db =
     (let claimed = map (claimed_row clk token worker us) (claim_candidate clk locked queue db);
          reaped = map (exhausted_row clk) (expired_exhausted clk locked queue db)
      in if list_all storable (reaped @ claimed)
         then Inr (claimed, map (claim_step clk locked queue token worker us db) db)
         else Inl (Opaque ''new row violates check constraint''))"

section \<open>Fenced statements\<close>

text \<open>
  The common \<^verbatim>\<open>WHERE id = $1 AND lease_token = $2 AND state = 'running' AND lease_until > clock_timestamp()\<close>
  with the reading of its clock.
\<close>

definition lease_live :: "timestamptz \<Rightarrow> Lease \<Rightarrow> row \<Rightarrow> bool" where
  "lease_live now lease r \<longleftrightarrow>
     c_id r = Lease_JobID lease \<and> c_lease_token r = Some (Lease_Token lease) \<and>
     c_state r = ''running'' \<and> (case c_lease_until r of Some u \<Rightarrow> u > now | None \<Rightarrow> False)"

text \<open>Readings 0 (expiry), 1 (updated_at), 2 (guard).\<close>

definition heartbeat_row :: "clock \<Rightarrow> int \<Rightarrow> row \<Rightarrow> row" where
  "heartbeat_row clk us r =
     r\<lparr>c_lease_until := Some (clk 0 (c_id r) + us), c_updated_at := clk 1 (c_id r)\<rparr>"

definition heartbeatSQL :: "clock \<Rightarrow> Lease \<Rightarrow> int \<Rightarrow> stmt" where
  "heartbeatSQL clk lease us = sql_update (\<lambda>r. lease_live (clk 2 (c_id r)) lease r) (heartbeat_row clk us)"

text \<open>Readings 0 (finished_at), 1 (updated_at), 2 (guard).\<close>

definition completed_row :: "clock \<Rightarrow> row \<Rightarrow> row" where
  "completed_row clk r =
     r\<lparr>c_state := ''succeeded'', c_lease_token := None, c_lease_owner := None, c_lease_until := None,
       c_finished_at := Some (clk 0 (c_id r)), c_updated_at := clk 1 (c_id r)\<rparr>"

definition completeSQL :: "clock \<Rightarrow> Lease \<Rightarrow> stmt" where
  "completeSQL clk lease = sql_update (\<lambda>r. lease_live (clk 2 (c_id r)) lease r) (completed_row clk)"

text \<open>Readings 0 (available_at), 1 (finished_at), 2 (updated_at), 3 (guard).\<close>

definition failed_row :: "clock \<Rightarrow> string \<Rightarrow> bool \<Rightarrow> int \<Rightarrow> row \<Rightarrow> row" where
  "failed_row clk message permanent us r =
     (let final = permanent \<or> c_attempts r \<ge> c_max_attempts r
      in r\<lparr>c_state := (if final then ''dead'' else ''pending''),
           c_available_at := (if final then c_available_at r else clk 0 (c_id r) + us),
           c_lease_token := None, c_lease_owner := None, c_lease_until := None,
           c_last_error := message,
           c_finished_at := (if final then Some (clk 1 (c_id r)) else None),
           c_updated_at := clk 2 (c_id r)\<rparr>)"

definition failSQL :: "clock \<Rightarrow> Lease \<Rightarrow> string \<Rightarrow> bool \<Rightarrow> int \<Rightarrow> stmt" where
  "failSQL clk lease message permanent us =
     sql_update (\<lambda>r. lease_live (clk 3 (c_id r)) lease r) (failed_row clk message permanent us)"

definition leaseStateSQL :: "string \<Rightarrow> stmt" where
  "leaseStateSQL i = sql_select (\<lambda>r. c_id r = i)"

section \<open>Operations\<close>

record claimResult =
  claimResult_job :: Job
  claimResult_found :: bool

definition zero_claimResult :: claimResult where
  "zero_claimResult = \<lparr>claimResult_job = zero_Job, claimResult_found = False\<rparr>"

text \<open>The function \<^verbatim>\<open>claimWithToken\<close> passes to \<^verbatim>\<open>transact\<close>.\<close>

definition claim_body :: "script \<Rightarrow> ClaimRequest \<Rightarrow> string \<Rightarrow> claimResult body" where
  "claim_body s request token db =
     (let (row, db1) = query_row s 0 (claimSQL (s_clock s) (s_locked s) (Claim_Queue request) token
            (Claim_Worker request) (Microseconds (Claim_LeaseDuration request))) db
      in case scanJob row of
           Inl err \<Rightarrow>
             if errors_Is err pgx_ErrNoRows then (db1, zero_claimResult, None)
             else (db1, zero_claimResult, Some (errorf_wrap ''claim job'' err))
         | Inr job \<Rightarrow> (db1, \<lparr>claimResult_job = job, claimResult_found = True\<rparr>, None))"

definition claimWithToken :: "script \<Rightarrow> repository \<Rightarrow> ctx \<Rightarrow> ClaimRequest \<Rightarrow> string \<Rightarrow> Job body" where
  "claimWithToken s repository ctx request token db =
     (if \<not> usable repository ctx
      then (db, zero_Job, Some (invalid ''repository and context are required''))
      else case validateClaim request of
        Some err \<Rightarrow> (db, zero_Job, Some err)
      | None \<Rightarrow>
         if length token \<noteq> 64 \<or> \<not> isLowerHex token
         then (db, zero_Job, Some (invalid ''lease token is invalid''))
         else (case transact ctx s zero_claimResult (claim_body s request token) db of
                 (db', result, Some err) \<Rightarrow> (db', claimResult_job result, Some err)
               | (db', result, None) \<Rightarrow>
                   if \<not> claimResult_found result then (db', zero_Job, Some (Sentinel ErrNoJob))
                   else (db', claimResult_job result, None)))"

definition Claim :: "script \<Rightarrow> repository \<Rightarrow> ctx \<Rightarrow> ClaimRequest \<Rightarrow> Job body" where
  "Claim s repository ctx request db =
     (if \<not> usable repository ctx
      then (db, zero_Job, Some (invalid ''repository and context are required''))
      else case validateClaim request of
        Some err \<Rightarrow> (db, zero_Job, Some err)
      | None \<Rightarrow>
         (case newLeaseToken (s_entropy s) of
            Inl err \<Rightarrow> (db, zero_Job, Some err)
          | Inr token \<Rightarrow> claimWithToken s repository ctx request token db))"

definition validateLeaseOperation :: "repository \<Rightarrow> ctx \<Rightarrow> Lease \<Rightarrow> error" where
  "validateLeaseOperation repository ctx lease =
     (if \<not> usable repository ctx then Some (invalid ''repository and context are required'')
      else if length (Lease_JobID lease) \<noteq> 32 \<or> \<not> isLowerHex (Lease_JobID lease) \<or>
        length (Lease_Token lease) \<noteq> 64 \<or> \<not> isLowerHex (Lease_Token lease)
      then Some (invalid ''lease is invalid'') else None)"

definition classifyLease :: "script \<Rightarrow> nat \<Rightarrow> string \<Rightarrow> db \<Rightarrow> go_error" where
  "classifyLease s n i db =
     (case fst (query_row s n (leaseStateSQL i) db) of
        Inl err \<Rightarrow>
          if errors_Is err pgx_ErrNoRows then Sentinel ErrNotFound
          else errorf_wrap ''classify rejected job lease: corrupt stored state'' err
      | Inr raw \<Rightarrow>
         (case ScanText (text_scanner ''state'' 1 (length StateSucceeded) False) (raw_state raw) of
            Inl err \<Rightarrow> errorf_wrap ''classify rejected job lease: corrupt stored state'' err
          | Inr (_, state) \<Rightarrow>
              if state = StateCanceled then Sentinel ErrCanceled
              else if state \<in> set [StatePending, StateRunning, StateSucceeded, StateDead]
              then Sentinel ErrLeaseLost
              else Opaque (''classify rejected job lease: corrupt stored state \"'' @ state @ ''\"'')))"

definition leaseMutation :: "script \<Rightarrow> ctx \<Rightarrow> Lease \<Rightarrow> stmt \<Rightarrow> Job body" where
  "leaseMutation s ctx lease statement =
     transact ctx s zero_Job (\<lambda>db.
       let (row, db1) = query_row s 0 statement db
       in case scanJob row of
            Inr job \<Rightarrow> (db1, job, None)
          | Inl err \<Rightarrow>
              if \<not> errors_Is err pgx_ErrNoRows
              then (db1, zero_Job, Some (errorf_wrap ''update job lease'' err))
              else (db1, zero_Job, Some (classifyLease s 1 (Lease_JobID lease) (s_later s db1))))"

definition Heartbeat :: "script \<Rightarrow> repository \<Rightarrow> ctx \<Rightarrow> Lease \<Rightarrow> duration \<Rightarrow> unit body" where
  "Heartbeat s repository ctx lease d db =
     (case validateLeaseOperation repository ctx lease of
        Some err \<Rightarrow> (db, (), Some err)
      | None \<Rightarrow>
         if d < MinLeaseDuration \<or> d > MaxLeaseDuration
         then (db, (), Some (invalid ''lease must be between 1s and 1h0m0s''))
         else if d smod microsecond \<noteq> 0
         then (db, (), Some (invalid ''lease must use PostgreSQL microsecond precision''))
         else transact ctx s () (\<lambda>db.
           let (row, db1) = query_row s 0 (heartbeatSQL (s_clock s) lease (Microseconds d)) db
           in case row of
                Inr _ \<Rightarrow> (db1, (), None)
              | Inl err \<Rightarrow>
                  if \<not> errors_Is err pgx_ErrNoRows
                  then (db1, (), Some (errorf_wrap ''update job lease'' err))
                  else (db1, (), Some (classifyLease s 1 (Lease_JobID lease) (s_later s db1)))) db)"

definition Complete :: "script \<Rightarrow> repository \<Rightarrow> ctx \<Rightarrow> Lease \<Rightarrow> Job body" where
  "Complete s repository ctx lease db =
     (case validateLeaseOperation repository ctx lease of
        Some err \<Rightarrow> (db, zero_Job, Some err)
      | None \<Rightarrow> leaseMutation s ctx lease (completeSQL (s_clock s) lease) db)"

definition Fail :: "script \<Rightarrow> repository \<Rightarrow> ctx \<Rightarrow> Lease \<Rightarrow> Failure \<Rightarrow> Job body" where
  "Fail s repository ctx lease failure db =
     (case or_else (validateLeaseOperation repository ctx lease) (validateFailure failure) of
        Some err \<Rightarrow> (db, zero_Job, Some err)
      | None \<Rightarrow> leaseMutation s ctx lease (failSQL (s_clock s) lease (Failure_Message failure)
          (Failure_Permanent failure) (Microseconds (Failure_RetryAfter failure))) db)"

section \<open>Every transition keeps the row invariant\<close>

lemma running_eq: "c_state r = ''running'' \<longleftrightarrow> c_state r = StateRunning"
  by (simp add: StateRunning_def)

lemma literal_clean [simp]:
  "clean_text ''lease expired after final attempt''" "clean_text ''lease expired before acknowledgement''"
  by (rule clean_text_ascii; simp add: ord_def)+

lemma heartbeat_row_ok:
  assumes "row_ok r" "c_state r = ''running''" "clock_sane clk" "0 \<le> us" "us \<le> 86400000000"
  shows "row_ok (heartbeat_row clk us r)"
  by (rule row_okI)
    (use row_ok_scalars [OF assms(1)] row_ok_shape [OF assms(1)] clock_sane_instant [OF assms(3-5)] assms(2) in
      \<open>simp_all add: heartbeat_row_def row_shape_def known_states_def state_defs\<close>)

lemma completed_row_ok:
  assumes "row_ok r" "c_state r = ''running''" "clock_sane clk"
  shows "row_ok (completed_row clk r)"
  by (rule row_okI)
    (use row_ok_scalars [OF assms(1)] row_ok_shape [OF assms(1)] clock_sane_instant [OF assms(3), of 0] assms(2) in
      \<open>simp_all add: completed_row_def row_shape_def known_states_def state_defs\<close>)

lemma exhausted_row_ok:
  assumes "row_ok r" "c_state r = ''running''" "clock_sane clk"
  shows "row_ok (exhausted_row clk r)"
  by (rule row_okI)
    (use row_ok_scalars [OF assms(1)] row_ok_shape [OF assms(1)] clock_sane_instant [OF assms(3), of 0] assms(2) in
      \<open>simp_all add: exhausted_row_def row_shape_def known_states_def state_defs\<close>)

lemma failed_row_ok:
  assumes "row_ok r" "c_state r = ''running''" "clock_sane clk" "0 \<le> us" "us \<le> 86400000000"
    "length message \<le> 4096" "clean_text message"
  shows "row_ok (failed_row clk message permanent us r)"
  by (rule row_okI)
    (use row_ok_scalars [OF assms(1)] row_ok_shape [OF assms(1)] clock_sane_instant [OF assms(3-5)] assms(2,6,7) in
      \<open>simp_all add: failed_row_def Let_def row_shape_def known_states_def state_defs\<close>)

lemma claimed_row_ok:
  assumes "row_ok r" "c_attempts r < c_max_attempts r" "clock_sane clk" "0 \<le> us" "us \<le> 86400000000"
    "token_ok token" "worker \<noteq> []" "length worker \<le> 256" "clean_text worker"
  shows "row_ok (claimed_row clk token worker us r)"
  by (rule row_okI)
    (use row_ok_scalars [OF assms(1)] clock_sane_instant [OF assms(3-5)] assms(2,6-9) in
      \<open>simp_all add: claimed_row_def row_shape_def known_states_def state_defs\<close>)

lemma transition_identity [simp]:
  "identity (heartbeat_row clk us r) = identity r" "identity (completed_row clk r) = identity r"
  "identity (exhausted_row clk r) = identity r" "identity (failed_row clk m p us r) = identity r"
  "identity (claimed_row clk t w us r) = identity r"
  by (simp_all add: identity_def heartbeat_row_def completed_row_def exhausted_row_def failed_row_def
      claimed_row_def Let_def)

text \<open>Admitted failures carry bounded clean text and a delay of at most a day.\<close>

definition failure_admitted :: "clock \<Rightarrow> string \<Rightarrow> int \<Rightarrow> bool" where
  "failure_admitted clk message us \<longleftrightarrow>
     clock_sane clk \<and> 0 \<le> us \<and> us \<le> 86400000000 \<and> length message \<le> 4096 \<and> clean_text message"

interpretation hb: keyed_update
  "\<lambda>(clk :: clock, lease, us :: int). Lease_JobID lease"
  "\<lambda>(clk, lease, us). clock_sane clk \<and> 0 \<le> us \<and> us \<le> 86400000000"
  "\<lambda>(clk, lease, us) r. lease_live (clk 2 (c_id r)) lease r"
  "\<lambda>(clk, lease, us). heartbeat_row clk us"
  by unfold_locales (auto simp: lease_live_def heartbeat_row_ok)

interpretation cp: keyed_update
  "\<lambda>(clk :: clock, lease). Lease_JobID lease"
  "\<lambda>(clk, lease). clock_sane clk"
  "\<lambda>(clk, lease) r. lease_live (clk 2 (c_id r)) lease r"
  "\<lambda>(clk, lease). completed_row clk"
  by unfold_locales (auto simp: lease_live_def completed_row_ok)

interpretation fl: keyed_update
  "\<lambda>(clk :: clock, lease, message, permanent :: bool, us). Lease_JobID lease"
  "\<lambda>(clk, lease, message, permanent, us). failure_admitted clk message us"
  "\<lambda>(clk, lease, message, permanent, us) r. lease_live (clk 3 (c_id r)) lease r"
  "\<lambda>(clk, lease, message, permanent, us). failed_row clk message permanent us"
  by unfold_locales (auto simp: lease_live_def failed_row_ok failure_admitted_def)

section \<open>Fenced mutation\<close>

text \<open>The outcome of a fenced operation that found no live lease.\<close>

definition rejected :: "string \<Rightarrow> db \<Rightarrow> sentinel" where
  "rejected i db =
     (case find_row i db of None \<Rightarrow> ErrNotFound
      | Some r \<Rightarrow> if c_state r = StateCanceled then ErrCanceled else ErrLeaseLost)"

lemma classifyLease_run:
  assumes "db_ok db" "s_fault s n = None"
  shows "classifyLease s n i db = Sentinel (rejected i db)"
proof (cases "find_row i db")
  case None
  have "filter (\<lambda>r. c_id r = i) db = []"
    using filter_id_find [OF db_ok_D(1) [OF assms(1)], of i "\<lambda>_. True"] None by simp
  with None assms(2) show ?thesis
    by (simp add: rejected_def classifyLease_def query_row_def run_stmt_def leaseStateSQL_def sql_select_def)
next
  case (Some r)
  have f: "filter (\<lambda>r. c_id r = i) db = [r]"
    using filter_id_find [OF db_ok_D(1) [OF assms(1)], of i "\<lambda>_. True"] Some by simp
  have "c_state r \<in> set known_states"
    using row_ok_scalars(17) db_ok_D(3) [OF assms(1)] find_row_Some [OF Some] by blast
  with f Some assms(2) show ?thesis
    by (auto simp: rejected_def classifyLease_def query_row_def run_stmt_def leaseStateSQL_def sql_select_def
        raw_of_row_def ScanText_def text_scanner_def known_states_def state_defs)
qed

context keyed_update
begin

text \<open>The driver's answer to the statement.\<close>

lemma query_upd:
  assumes "admitted a" "db_ok db" "s_fault s n = None"
  shows "query_row s n (sql_update (guard a) (upd a)) db =
    (case find_row (key a) db of
       None \<Rightarrow> (Inl (Sentinel pgx_ErrNoRows), db)
     | Some r \<Rightarrow> if guard a r then (Inr (raw_of_row (upd a r)), update_where (guard a) (upd a) db)
                 else (Inl (Sentinel pgx_ErrNoRows), db))"
  using assms unchanged [OF db_ok_D(1) [OF assms(2)], of a]
  by (auto simp: query_row_def run_stmt_def no_violation split: option.splits)

text \<open>Whatever the environment does, a row returned by the statement satisfied the guard.\<close>

lemma query_upd_Inr:
  assumes "query_row s n (sql_update (guard a) (upd a)) db = (Inr raw, db')" "primary_key db"
  shows "\<exists>r. find_row (key a) db = Some r \<and> guard a r \<and> raw = raw_of_row (upd a r) \<and>
    db' = update_where (guard a) (upd a) db"
proof -
  from assms(1) obtain r rs where "map (upd a) (filter (guard a) db) = r # rs" "raw = raw_of_row r"
    "db' = update_where (guard a) (upd a) db"
    by (auto simp: query_row_def run_stmt_def sql_update_def Let_def
        split: option.splits sum.splits list.splits if_splits)
  then show ?thesis using returned [OF assms(2), of a] by (auto split: option.splits if_splits)
qed

text \<open>The statement matched: its transition, whatever happens beside it.\<close>

lemma leaseMutation_hit:
  assumes "admitted a" "db_ok db" "healthy s" "ctx \<noteq> NilInterface" "find_row (key a) db = Some r" "guard a r"
  shows "leaseMutation s ctx lease (sql_update (guard a) (upd a)) db =
    (set_row (key a) (upd a r) db, job_of_row (upd a r), None)"
proof -
  have "row_ok (upd a r)"
    using keeps_ok [OF assms(1) _ assms(6)] db_ok_D(3) [OF assms(2)] find_row_Some [OF assms(5)] by blast
  with assms as_set_row [OF db_ok_D(1) [OF assms(2)] assms(5,6)] show ?thesis
    by (simp add: leaseMutation_def transact_def query_upd)
qed

text \<open>It did not: the row as a later snapshot shows it decides the error.\<close>

lemma leaseMutation_miss:
  assumes "admitted a" "db_ok db" "healthy s" "ctx \<noteq> NilInterface" "db_ok (s_later s db)"
    "case find_row (key a) db of Some r \<Rightarrow> \<not> guard a r | None \<Rightarrow> True"
  shows "leaseMutation s ctx lease (sql_update (guard a) (upd a)) db =
    (db, zero_Job, Some (Sentinel (rejected (Lease_JobID lease) (s_later s db))))"
  using assms
  by (cases "find_row (key a) db")
    (simp_all add: leaseMutation_def transact_def query_upd classifyLease_run rejected_def split: option.splits)

lemma leaseMutation_fenced:
  assumes "leaseMutation s ctx lease (sql_update (guard a) (upd a)) db = (db', v, err)" "primary_key db"
  obtains (kept) "db' = db" "err \<noteq> None"
  | (applied) r where "find_row (key a) db = Some r" "guard a r" "db' = update_where (guard a) (upd a) db"
      "err = None \<or> Is err ErrCommitOutcomeUnknown"
proof -
  let ?body = "\<lambda>db. let (row, db1) = query_row s 0 (sql_update (guard a) (upd a)) db
       in case scanJob row of
            Inr job \<Rightarrow> (db1, job, None)
          | Inl err \<Rightarrow>
              if \<not> errors_Is err pgx_ErrNoRows
              then (db1, zero_Job, Some (errorf_wrap ''update job lease'' err))
              else (db1, zero_Job, Some (classifyLease s 1 (Lease_JobID lease) (s_later s db1)))"
  have hit: "\<exists>r. find_row (key a) db = Some r \<and> guard a r \<and> db' = update_where (guard a) (upd a) db"
    if body: "?body db = (db', v, None)"
  proof -
    obtain row db1 where q: "query_row s 0 (sql_update (guard a) (upd a)) db = (row, db1)" by fastforce
    with body have "\<exists>job. scanJob row = Inr job \<and> db1 = db'"
      by (auto split: sum.splits if_splits)
    then obtain raw where "row = Inr raw" "db1 = db'"
      by (cases row) auto
    with q show ?thesis using query_upd_Inr [OF _ assms(2)] by blast
  qed
  show ?thesis
    using assms(1) unfolding leaseMutation_def
    by (cases rule: transact_cases) (use that hit in blast)+
qed

end

section \<open>Complete, Fail and Heartbeat\<close>

definition lease_ok :: "Lease \<Rightarrow> bool" where
  "lease_ok lease \<longleftrightarrow> job_id_ok (Lease_JobID lease) \<and> token_ok (Lease_Token lease)"

lemma validateLeaseOperation_None [simp]:
  "validateLeaseOperation repository ctx lease = None \<longleftrightarrow> usable repository ctx \<and> lease_ok lease"
  by (auto simp: validateLeaseOperation_def lease_ok_def job_id_ok_def token_ok_def)

lemma validateLeaseOperation_ok [simp]:
  "usable repository ctx \<Longrightarrow> lease_ok lease \<Longrightarrow> validateLeaseOperation repository ctx lease = None"
  by simp

definition lease_names :: "Lease \<Rightarrow> row \<Rightarrow> bool" where
  "lease_names lease r \<longleftrightarrow> c_id r = Lease_JobID lease \<and> c_lease_token r = Some (Lease_Token lease)"

definition live_row :: "timestamptz \<Rightarrow> Lease \<Rightarrow> db \<Rightarrow> row option" where
  "live_row now lease db =
     (case find_row (Lease_JobID lease) db of
        Some r \<Rightarrow> if lease_live now lease r then Some r else None | None \<Rightarrow> None)"

lemma live_row_Some:
  "live_row now lease db = Some r \<longleftrightarrow> find_row (Lease_JobID lease) db = Some r \<and> lease_live now lease r"
  by (auto simp: live_row_def split: option.splits if_splits)

lemma live_row_None:
  "live_row (s_clock s n (Lease_JobID lease)) lease db = None \<Longrightarrow>
   case find_row (Lease_JobID lease) db of Some r \<Rightarrow> \<not> lease_live (s_clock s n (c_id r)) lease r | None \<Rightarrow> True"
  by (auto simp: live_row_def lease_live_def split: option.splits if_splits)

lemma live_row_hit:
  assumes "live_row (s_clock s n (Lease_JobID lease)) lease db = Some r"
  shows "find_row (Lease_JobID lease) db = Some r" "lease_live (s_clock s n (c_id r)) lease r"
  using assms by (auto simp: live_row_Some lease_live_def)

lemma Microseconds_lease:
  "1000000000 \<le> d \<Longrightarrow> d \<le> 3600000000000 \<Longrightarrow> 0 \<le> Microseconds d \<and> Microseconds d \<le> 86400000000"
  by (auto simp: Microseconds_nonneg)

lemma failure_admitted_valid:
  "validateFailure f = None \<Longrightarrow> clock_sane clk \<Longrightarrow>
   failure_admitted clk (Failure_Message f) (Microseconds (Failure_RetryAfter f))"
  by (auto simp: failure_admitted_def validateFailure_None Microseconds_nonneg)

text \<open>With the live lease, a healthy operation applies its transition.\<close>

lemma Complete_live:
  assumes "healthy s" "usable repository ctx" "lease_ok lease" "db_ok db" "clock_sane (s_clock s)"
    "live_row (s_clock s 2 (Lease_JobID lease)) lease db = Some r"
  shows "Complete s repository ctx lease db =
    (set_row (Lease_JobID lease) (completed_row (s_clock s) r) db, job_of_row (completed_row (s_clock s) r), None)"
  using cp.leaseMutation_hit [of "(s_clock s, lease)", unfolded split_conv,
      OF assms(5,4,1) usable_D(1) [OF assms(2)] live_row_hit [OF assms(6)]] assms(2,3)
  by (simp add: Complete_def completeSQL_def)

lemma Fail_live:
  assumes "healthy s" "usable repository ctx" "lease_ok lease" "db_ok db" "clock_sane (s_clock s)"
    "validateFailure f = None" "live_row (s_clock s 3 (Lease_JobID lease)) lease db = Some r"
  shows "Fail s repository ctx lease f db =
    (let r' = failed_row (s_clock s) (Failure_Message f) (Failure_Permanent f) (Microseconds (Failure_RetryAfter f)) r
     in (set_row (Lease_JobID lease) r' db, job_of_row r', None))"
  using fl.leaseMutation_hit [of "(s_clock s, lease, Failure_Message f, Failure_Permanent f,
        Microseconds (Failure_RetryAfter f))", unfolded split_conv,
      OF failure_admitted_valid [OF assms(6,5)] assms(4,1) usable_D(1) [OF assms(2)] live_row_hit [OF assms(7)]] assms(2,3,6)
  by (simp add: Fail_def failSQL_def Let_def)

lemma Heartbeat_live:
  assumes "healthy s" "usable repository ctx" "lease_ok lease" "db_ok db" "clock_sane (s_clock s)"
    "MinLeaseDuration \<le> d" "d \<le> MaxLeaseDuration" "d mod 1000 = 0"
    "live_row (s_clock s 2 (Lease_JobID lease)) lease db = Some r"
  shows "Heartbeat s repository ctx lease d db =
    (set_row (Lease_JobID lease) (heartbeat_row (s_clock s) (Microseconds d) r) db, (), None)"
proof -
  let ?a = "(s_clock s, lease, Microseconds d)"
  have us: "0 \<le> Microseconds d \<and> Microseconds d \<le> 86400000000" "d smod microsecond = 0"
    using assms(6-8) Microseconds_lease [of d] by (simp_all add: go_defs smod_pos)
  note r = live_row_hit [OF assms(9)]
  have "query_row s 0 (heartbeatSQL (s_clock s) lease (Microseconds d)) db =
      (Inr (raw_of_row (heartbeat_row (s_clock s) (Microseconds d) r)),
       set_row (Lease_JobID lease) (heartbeat_row (s_clock s) (Microseconds d) r) db)"
    using hb.query_upd [of ?a db s 0, unfolded split_conv] us(1) assms(1,4,5) r
      hb.as_set_row [of db ?a r, unfolded split_conv, OF db_ok_D(1) [OF assms(4)] r]
    by (simp add: heartbeatSQL_def)
  with us assms usable_D(1) [OF assms(2)] show ?thesis by (simp add: Heartbeat_def transact_def)
qed

text \<open>
  C20. \<^verbatim>\<open>Complete\<close> in a healthy environment, on every branch: with the exact live lease
  the job becomes succeeded, loses its lease and gets its finish time, and the transitioned
  job is returned; otherwise nothing changes and the error is \<^verbatim>\<open>ErrNotFound\<close> (no such
  job), \<^verbatim>\<open>ErrCanceled\<close> (canceled) or \<^verbatim>\<open>ErrLeaseLost\<close> (expired, replaced or
  already acknowledged), by what the table holds when the second statement reads it.
\<close>

theorem Complete_behaviour:
  assumes "healthy s" "usable repository ctx" "lease_ok lease" "db_ok db" "clock_sane (s_clock s)"
    "db_ok (s_later s db)"
  shows "Complete s repository ctx lease db =
    (case live_row (s_clock s 2 (Lease_JobID lease)) lease db of
       Some r \<Rightarrow>
         (let r' = r\<lparr>c_state := StateSucceeded, c_lease_token := None, c_lease_owner := None, c_lease_until := None,
                      c_finished_at := Some (s_clock s 0 (c_id r)), c_updated_at := s_clock s 1 (c_id r)\<rparr>
          in (set_row (Lease_JobID lease) r' db, job_of_row r', None))
     | None \<Rightarrow> (db, zero_Job, Some (Sentinel (rejected (Lease_JobID lease) (s_later s db)))))"
proof (cases "live_row (s_clock s 2 (Lease_JobID lease)) lease db")
  case None
  then show ?thesis
    using cp.leaseMutation_miss [of "(s_clock s, lease)", unfolded split_conv,
        OF assms(5,4,1) usable_D(1) [OF assms(2)] assms(6) live_row_None] assms(2,3)
    by (simp add: Complete_def completeSQL_def)
qed (simp add: Complete_live [OF assms(1-5)] completed_row_def state_defs Let_def)

text \<open>
  C21. \<^verbatim>\<open>Fail\<close> in a healthy environment, on every branch: with the exact live lease a
  permanent failure or an exhausted budget makes the job dead, any other failure makes it
  pending again, available after the requested delay; the message is recorded and the
  lease released. Without it nothing changes and the rejection is classified by what the
  table holds when the second statement reads it.
\<close>

theorem Fail_behaviour:
  assumes "healthy s" "usable repository ctx" "lease_ok lease" "db_ok db" "clock_sane (s_clock s)"
    "validateFailure failure = None" "db_ok (s_later s db)"
  shows "Fail s repository ctx lease failure db =
    (case live_row (s_clock s 3 (Lease_JobID lease)) lease db of
       Some r \<Rightarrow>
         (let final = Failure_Permanent failure \<or> c_max_attempts r \<le> c_attempts r;
              r' = r\<lparr>c_state := (if final then StateDead else StatePending),
                      c_available_at := (if final then c_available_at r
                        else s_clock s 0 (c_id r) + Failure_RetryAfter failure div 1000),
                      c_lease_token := None, c_lease_owner := None, c_lease_until := None,
                      c_last_error := Failure_Message failure,
                      c_finished_at := (if final then Some (s_clock s 1 (c_id r)) else None),
                      c_updated_at := s_clock s 2 (c_id r)\<rparr>
          in (set_row (Lease_JobID lease) r' db, job_of_row r', None))
     | None \<Rightarrow> (db, zero_Job, Some (Sentinel (rejected (Lease_JobID lease) (s_later s db)))))"
proof (cases "live_row (s_clock s 3 (Lease_JobID lease)) lease db")
  case None
  let ?a = "(s_clock s, lease, Failure_Message failure, Failure_Permanent failure, Microseconds (Failure_RetryAfter failure))"
  from None show ?thesis
    using fl.leaseMutation_miss [of ?a, unfolded split_conv, OF failure_admitted_valid [OF assms(6,5)] assms(4,1)
        usable_D(1) [OF assms(2)] assms(7) live_row_None] assms(2,3,6)
    by (simp add: Fail_def failSQL_def)
next
  case (Some r)
  have "Microseconds (Failure_RetryAfter failure) = Failure_RetryAfter failure div 1000"
    using assms(6) by (simp add: validateFailure_None Microseconds_nonneg)
  with Some show ?thesis by (simp add: Fail_live [OF assms(1-6)] failed_row_def state_defs Let_def cong: if_cong)
qed

text \<open>
  C22. \<^verbatim>\<open>Heartbeat\<close> in a healthy environment: with the exact live lease the expiry
  becomes the database clock plus the duration, never the old expiry plus the duration;
  otherwise nothing changes and the rejection is classified by what the table holds when
  the second statement reads it.
\<close>

theorem Heartbeat_behaviour:
  assumes "healthy s" "usable repository ctx" "lease_ok lease" "db_ok db" "clock_sane (s_clock s)"
    "MinLeaseDuration \<le> d" "d \<le> MaxLeaseDuration" "d mod 1000 = 0" "db_ok (s_later s db)"
  shows "Heartbeat s repository ctx lease d db =
    (case live_row (s_clock s 2 (Lease_JobID lease)) lease db of
       Some r \<Rightarrow> (set_row (Lease_JobID lease)
                    (r\<lparr>c_lease_until := Some (s_clock s 0 (c_id r) + d div 1000),
                       c_updated_at := s_clock s 1 (c_id r)\<rparr>) db, (), None)
     | None \<Rightarrow> (db, (), Some (Sentinel (rejected (Lease_JobID lease) (s_later s db)))))"
proof (cases "live_row (s_clock s 2 (Lease_JobID lease)) lease db")
  case None
  have us: "0 \<le> Microseconds d \<and> Microseconds d \<le> 86400000000" "d smod microsecond = 0"
    using assms(6-8) Microseconds_lease [of d] by (simp_all add: go_defs smod_pos)
  have "query_row s 0 (heartbeatSQL (s_clock s) lease (Microseconds d)) db = (Inl (Sentinel pgx_ErrNoRows), db)"
    using hb.query_upd [of "(s_clock s, lease, Microseconds d)" db s 0, unfolded split_conv] us(1) assms(1,4,5)
      live_row_None [OF None]
    by (auto simp: heartbeatSQL_def split: option.splits)
  with None us assms usable_D(1) [OF assms(2)] show ?thesis
    by (simp add: Heartbeat_def transact_def classifyLease_run)
next
  case (Some r)
  have "Microseconds d = d div 1000" using assms(6) by (simp add: go_defs Microseconds_nonneg)
  with Some Heartbeat_live [OF assms(1-8) Some] show ?thesis by (simp add: heartbeat_row_def)
qed

section \<open>Witnesses of the fenced operations\<close>

lemma sample_db_ok [simp]: "db_ok [sample_running]"
  by (simp add: db_ok_def primary_key_def gotth_jobs_idempotency_def)

lemma sample_lease_ok [simp]: "lease_ok sample_lease"
  using newJobID_ok [OF sample_newJobID] newLeaseToken_ok [OF sample_newLeaseToken]
  by (simp add: lease_ok_def sample_lease_def)

lemma sample_live [simp]:
  "live_row (sample_clock n i) sample_lease [sample_running] = Some sample_running"
  by (simp add: live_row_def find_row_def lease_live_def sample_running_def sample_lease_def sample_clock_def)

lemma sample_lease_id [simp]: "Lease_JobID sample_lease = sample_id" "c_id sample_running = sample_id"
  by (simp_all add: sample_lease_def sample_running_def)

text \<open>A lease with another token is stale.\<close>

definition stale_lease :: Lease where
  "stale_lease = \<lparr>Lease_JobID = sample_id, Lease_Token = replicate 64 (CHR ''1'')\<rparr>"

lemma stale_lease_ok [simp]: "lease_ok stale_lease"
  using newJobID_ok [OF sample_newJobID]
  by (simp add: lease_ok_def stale_lease_def token_ok_def isLowerHex_def lower_hex_char_def list_all_iff ord_def)

lemma stale_not_live [simp]: "live_row now stale_lease [sample_running] = None"
  by (simp add: live_row_def find_row_def lease_live_def sample_running_def stale_lease_def sample_token_def replicate_eq_replicate)

lemma stale_rejected [simp]: "rejected (Lease_JobID stale_lease) [sample_running] = ErrLeaseLost"
  by (simp add: rejected_def find_row_def stale_lease_def sample_running_def state_defs)

theorem Complete_behaviour_witness:
  "(\<exists>r job. Complete sample_script sample_repository sample_ctx sample_lease [sample_running] = ([r], job, None) \<and>
     c_state r = ''succeeded'' \<and> c_lease_token r = None \<and> c_finished_at r = Some 5000000 \<and>
     c_attempts r = 1 \<and> Job_State job = StateSucceeded) \<and>
   Complete sample_script sample_repository sample_ctx stale_lease [sample_running] =
     ([sample_running], zero_Job, Some (Sentinel ErrLeaseLost))"
  using Complete_behaviour [OF sample_healthy sample_usable sample_lease_ok sample_db_ok]
    Complete_behaviour [OF sample_healthy sample_usable stale_lease_ok sample_db_ok]
  by (simp add: set_row_def Let_def) (simp add: sample_running_def sample_clock_def state_defs)

text \<open>One retryable and one permanent failure of the same attempt.\<close>

theorem Fail_behaviour_witness:
  "(\<exists>r job. Fail sample_script sample_repository sample_ctx sample_lease
     \<lparr>Failure_Message = ''down'', Failure_RetryAfter = 2000000000, Failure_Permanent = False\<rparr> [sample_running] = ([r], job, None) \<and>
     c_state r = ''pending'' \<and> c_available_at r = 7000000 \<and> c_last_error r = ''down'' \<and> Job_State job = StatePending) \<and>
   (\<exists>r job. Fail sample_script sample_repository sample_ctx sample_lease
     \<lparr>Failure_Message = ''down'', Failure_RetryAfter = 0, Failure_Permanent = True\<rparr> [sample_running] = ([r], job, None) \<and>
     c_state r = ''dead'' \<and> c_finished_at r = Some 5000000 \<and> Job_State job = StateDead)"
proof -
  let ?f = "\<lambda>d p. \<lparr>Failure_Message = ''down'', Failure_RetryAfter = d, Failure_Permanent = p\<rparr>"
  have "clean_text ''down''" by (rule clean_text_ascii) (simp add: ord_def)
  then have v: "validateFailure (?f 2000000000 False) = None" "validateFailure (?f 0 True) = None"
    by (simp_all add: validateFailure_None)
  have r: "c_attempts sample_running = 1" "c_max_attempts sample_running = 2" by (simp_all add: sample_running_def)
  note fail = Fail_behaviour [OF sample_healthy sample_usable sample_lease_ok sample_db_ok _ v(1)]
    Fail_behaviour [OF sample_healthy sample_usable sample_lease_ok sample_db_ok _ v(2)]
  show ?thesis
    using fail by (simp add: set_row_def Let_def r) (simp add: sample_clock_def state_defs)
qed

theorem Heartbeat_behaviour_witness:
  "Heartbeat sample_script sample_repository sample_ctx sample_lease 1000000000 [sample_running] =
     ([sample_running\<lparr>c_lease_until := Some 6000000, c_updated_at := 5000000\<rparr>], (), None)"
proof -
  have "MinLeaseDuration \<le> 1000000000" "1000000000 \<le> MaxLeaseDuration" "(1000000000::int) mod 1000 = 0"
    by (simp_all add: go_defs)
  from Heartbeat_behaviour [OF sample_healthy sample_usable sample_lease_ok sample_db_ok _ this]
  show ?thesis by (simp add: set_row_def) (simp add: sample_clock_def)
qed

section \<open>Fencing under every environment\<close>

text \<open>
  Whatever fails or not around it, a fenced operation either leaves the table alone and
  reports an error, or it applied exactly its transition to the row holding the live lease.
\<close>

lemma Complete_cases:
  assumes "Complete s repository ctx lease db = (db', v, err)" "primary_key db"
  obtains (kept) "db' = db" "err \<noteq> None"
  | (applied) r where "live_row (s_clock s 2 (Lease_JobID lease)) lease db = Some r"
      "db' = set_row (Lease_JobID lease) (completed_row (s_clock s) r) db"
      "err = None \<or> Is err ErrCommitOutcomeUnknown"
proof (cases "validateLeaseOperation repository ctx lease")
  case None
  with assms(1) have "leaseMutation s ctx lease (completeSQL (s_clock s) lease) db = (db', v, err)"
    by (simp only: Complete_def option.case)
  from cp.leaseMutation_fenced [of s ctx lease "(s_clock s, lease)", unfolded split_conv,
      OF this [unfolded completeSQL_def] assms(2)] show ?thesis
  proof cases
    case (2 r)
    moreover have "c_id r = Lease_JobID lease" using find_row_Some [OF 2(1)] by simp
    ultimately show ?thesis
      using that(2) [of r] cp.as_set_row [of db "(s_clock s, lease)" r, unfolded split_conv, OF assms(2) 2(1,2)]
      by (simp add: live_row_def)
  qed (rule that(1))
next
  case (Some e)
  with assms(1) have "(db, zero_Job, Some e) = (db', v, err)" by (simp only: Complete_def option.case)
  then show ?thesis by (intro that(1)) auto
qed

lemma Fail_cases:
  assumes "Fail s repository ctx lease failure db = (db', v, err)" "primary_key db"
  obtains (kept) "db' = db" "err \<noteq> None"
  | (applied) r where "validateFailure failure = None"
      "live_row (s_clock s 3 (Lease_JobID lease)) lease db = Some r"
      "db' = set_row (Lease_JobID lease) (failed_row (s_clock s) (Failure_Message failure)
         (Failure_Permanent failure) (Microseconds (Failure_RetryAfter failure)) r) db"
      "err = None \<or> Is err ErrCommitOutcomeUnknown"
proof (cases "or_else (validateLeaseOperation repository ctx lease) (validateFailure failure)")
  case None
  let ?a = "(s_clock s, lease, Failure_Message failure, Failure_Permanent failure, Microseconds (Failure_RetryAfter failure))"
  from None assms(1) have "leaseMutation s ctx lease (failSQL (s_clock s) lease (Failure_Message failure)
      (Failure_Permanent failure) (Microseconds (Failure_RetryAfter failure))) db = (db', v, err)"
    by (simp only: Fail_def option.case)
  from fl.leaseMutation_fenced [of s ctx lease ?a, unfolded split_conv, OF this [unfolded failSQL_def] assms(2)]
  show ?thesis
  proof cases
    case (2 r)
    moreover have "c_id r = Lease_JobID lease" using find_row_Some [OF 2(1)] by simp
    ultimately show ?thesis
      using that(2) [of r] None fl.as_set_row [of db ?a r, unfolded split_conv, OF assms(2) 2(1,2)]
      by (simp add: live_row_def)
  qed (rule that(1))
next
  case (Some e)
  with assms(1) have "(db, zero_Job, Some e) = (db', v, err)" by (simp only: Fail_def option.case)
  then show ?thesis by (intro that(1)) auto
qed

lemma Heartbeat_cases:
  assumes "Heartbeat s repository ctx lease d db = (db', v, err)" "primary_key db"
  obtains (kept) "db' = db" "err \<noteq> None"
  | (applied) r where "MinLeaseDuration \<le> d" "d \<le> MaxLeaseDuration"
      "live_row (s_clock s 2 (Lease_JobID lease)) lease db = Some r"
      "db' = set_row (Lease_JobID lease) (heartbeat_row (s_clock s) (Microseconds d) r) db"
      "err = None \<or> Is err ErrCommitOutcomeUnknown"
proof (cases "validateLeaseOperation repository ctx lease = None \<and> MinLeaseDuration \<le> d \<and>
    d \<le> MaxLeaseDuration \<and> d smod microsecond = 0")
  case True
  let ?body = "\<lambda>db. let (row, db1) = query_row s 0 (heartbeatSQL (s_clock s) lease (Microseconds d)) db
       in case row of
            Inr _ \<Rightarrow> (db1, (), None)
          | Inl err \<Rightarrow>
              if \<not> errors_Is err pgx_ErrNoRows
              then (db1, (), Some (errorf_wrap ''update job lease'' err))
              else (db1, (), Some (classifyLease s 1 (Lease_JobID lease) (s_later s db1)))"
  have run: "transact ctx s () ?body db = (db', v, err)"
    using assms(1) True unfolding Heartbeat_def by (simp del: validateLeaseOperation_None split: option.splits)
  have hit: "\<exists>r. live_row (s_clock s 2 (Lease_JobID lease)) lease db = Some r \<and>
      db' = set_row (Lease_JobID lease) (heartbeat_row (s_clock s) (Microseconds d) r) db"
    if body: "?body db = (db', v, None)"
  proof -
    from body obtain raw where "query_row s 0 (heartbeatSQL (s_clock s) lease (Microseconds d)) db = (Inr raw, db')"
      by (auto split: sum.splits if_splits prod.splits)
    from hb.query_upd_Inr [of s 0 "(s_clock s, lease, Microseconds d)", unfolded split_conv,
        OF this [unfolded heartbeatSQL_def] assms(2)]
    obtain r where r: "find_row (Lease_JobID lease) db = Some r" "lease_live (s_clock s 2 (c_id r)) lease r"
      "db' = update_where (\<lambda>r. lease_live (s_clock s 2 (c_id r)) lease r) (heartbeat_row (s_clock s) (Microseconds d)) db"
      by blast
    moreover have "c_id r = Lease_JobID lease" using find_row_Some [OF r(1)] by simp
    ultimately show ?thesis
      using hb.as_set_row [of db "(s_clock s, lease, Microseconds d)" r, unfolded split_conv, OF assms(2) r(1,2)]
      by (intro exI [of _ r]) (simp add: live_row_def)
  qed
  from run show ?thesis
    by (cases rule: transact_cases) (use that hit True in blast)+
next
  case False
  then have "\<exists>e. Heartbeat s repository ctx lease d db = (db, (), Some e)"
    by (cases "validateLeaseOperation repository ctx lease")
      (auto simp: Heartbeat_def simp del: validateLeaseOperation_None validateLeaseOperation_ok)
  with assms(1) that(1) show ?thesis by auto
qed

lemma not_live_fenced:
  assumes "primary_key db" "\<And>n. live_row (s_clock s n (Lease_JobID lease)) lease db = None"
  shows "(\<exists>v e. Complete s repository ctx lease db = (db, v, Some e)) \<and>
    (\<exists>v e. Fail s repository ctx lease failure db = (db, v, Some e)) \<and>
    (\<exists>e. Heartbeat s repository ctx lease d db = (db, (), Some e))"
proof (intro conjI)
  obtain db' v err where "Complete s repository ctx lease db = (db', v, err)" using prod_cases3 by blast
  then show "\<exists>v e. Complete s repository ctx lease db = (db, v, Some e)"
    by (cases rule: Complete_cases [OF _ assms(1)]) (use assms(2) in auto)
  obtain db' v err where "Fail s repository ctx lease failure db = (db', v, err)" using prod_cases3 by blast
  then show "\<exists>v e. Fail s repository ctx lease failure db = (db, v, Some e)"
    by (cases rule: Fail_cases [OF _ assms(1)]) (use assms(2) in auto)
  obtain db' v err where "Heartbeat s repository ctx lease d db = (db', v, err)" using prod_cases3 by blast
  then show "\<exists>e. Heartbeat s repository ctx lease d db = (db, (), Some e)"
    by (cases rule: Heartbeat_cases [OF _ assms(1)]) (use assms(2) in auto)
qed

text \<open>
  C16. Fencing. Under every environment, faults, lost commits and clocks included, a
  lease that is not live in the table (expired, replaced by a later claim, acknowledged,
  or of a canceled or missing job) can change nothing: \<^verbatim>\<open>Complete\<close>, \<^verbatim>\<open>Fail\<close> and
  \<^verbatim>\<open>Heartbeat\<close> leave the table exactly as it is and return an error.
\<close>

theorem stale_lease_fenced:
  assumes "primary_key db" "\<And>n. live_row (s_clock s n (Lease_JobID lease)) lease db = None"
  shows "(\<exists>v e. Complete s repository ctx lease db = (db, v, Some e)) \<and>
    (\<exists>v e. Fail s repository ctx lease failure db = (db, v, Some e)) \<and>
    (\<exists>e. Heartbeat s repository ctx lease d db = (db, (), Some e))"
  using not_live_fenced [OF assms] .

theorem stale_lease_fenced_witness:
  "\<exists>v e. Complete (sample_script\<lparr>s_commit := Some (Opaque ''reset'')\<rparr>) sample_repository sample_ctx
     stale_lease [sample_running] = ([sample_running], v, Some e)"
  using stale_lease_fenced [OF db_ok_D(1) [OF sample_db_ok] stale_not_live] by blast

end
