(* ===== verification/Claiming.thy ===== *)
theory Claiming
  imports Lifecycle
begin

text \<open>
  The claim of \<^verbatim>\<open>lifecycle.go\<close>: what one run of \<^verbatim>\<open>claimSQL\<close> does to the table,
  which job it hands out, and what it does to every other row.
\<close>

section \<open>The two updates of the statement\<close>

definition claim_table :: "script \<Rightarrow> ClaimRequest \<Rightarrow> string \<Rightarrow> db \<Rightarrow> db" where
  "claim_table s request token db =
     map (claim_step (s_clock s) (s_locked s) (Claim_Queue request) token (Claim_Worker request)
       (Microseconds (Claim_LeaseDuration request)) db) db"

definition claim_admitted :: "script \<Rightarrow> ClaimRequest \<Rightarrow> string \<Rightarrow> bool" where
  "claim_admitted s request token \<longleftrightarrow>
     validateClaim request = None \<and> token_ok token \<and> clock_sane (s_clock s)"

text \<open>The rows the statement may hand out: due or expired, of the queue, and not locked.\<close>

definition claimable :: "script \<Rightarrow> string \<Rightarrow> db \<Rightarrow> row list" where
  "claimable s queue db = filter (\<lambda>r. claim_eligible (s_clock s) queue r \<and> c_id r \<notin> set (s_locked s)) db"

abbreviation candidate :: "script \<Rightarrow> string \<Rightarrow> db \<Rightarrow> row list" where
  "candidate s queue db \<equiv> claim_candidate (s_clock s) (s_locked s) queue db"

abbreviation reaped :: "script \<Rightarrow> string \<Rightarrow> db \<Rightarrow> row list" where
  "reaped s queue db \<equiv> expired_exhausted (s_clock s) (s_locked s) queue db"

abbreviation granted :: "script \<Rightarrow> ClaimRequest \<Rightarrow> string \<Rightarrow> row \<Rightarrow> row" where
  "granted s request token \<equiv> claimed_row (s_clock s) token (Claim_Worker request)
     (Microseconds (Claim_LeaseDuration request))"

lemma candidate_cases:
  obtains "claimable s queue db = []" "candidate s queue db = []"
  | r where "r \<in> set (claimable s queue db)" "candidate s queue db = [r]"
      "\<And>x. x \<in> set (claimable s queue db) \<Longrightarrow> claim_key r \<le> claim_key x"
proof (cases "candidate s queue db")
  case Nil
  then show ?thesis using that(1) by (simp add: claim_candidate_def claimable_def)
next
  case (Cons r rs)
  have "length (candidate s queue db) \<le> 1"
    using length_top_by by (simp only: claim_candidate_def)
  with Cons have c: "candidate s queue db = [r]" by simp
  then have "top_by claim_key (Suc 0) (claimable s queue db) = [r]"
    by (simp add: claim_candidate_def claimable_def)
  from top_by_1_least [OF this] c that(2) show ?thesis by blast
qed

lemma claimable_D:
  assumes "r \<in> set (claimable s queue db)"
  shows "r \<in> set db" "claim_eligible (s_clock s) queue r" "c_id r \<notin> set (s_locked s)"
  using assms by (auto simp: claimable_def)

lemma reaped_D:
  assumes "r \<in> set (reaped s queue db)"
  shows "r \<in> set db" "exhausted_match (s_clock s) queue r" "c_id r \<notin> set (s_locked s)"
  using assms top_by_subset by (fastforce simp: expired_exhausted_def)+

lemma eligible_not_exhausted: "claim_eligible clk queue r \<Longrightarrow> \<not> exhausted_match clk queue r"
  by (auto simp: claim_eligible_def exhausted_match_def)

lemma eligible_budget:
  "row_ok r \<Longrightarrow> claim_eligible clk queue r \<Longrightarrow> c_attempts r < c_max_attempts r"
  using row_ok_attempts(1) [of r] by (auto simp: claim_eligible_def state_defs)

text \<open>No row is touched by both updates.\<close>

lemma claim_disjoint:
  assumes "primary_key db" "r \<in> set (candidate s queue db)" "x \<in> set (reaped s queue db)"
  shows "c_id r \<noteq> c_id x"
proof
  assume eq: "c_id r = c_id x"
  from assms(2) have r: "r \<in> set (claimable s queue db)"
    by (cases rule: candidate_cases [of s queue db]) auto
  have "r = x"
    using primary_key_eq [OF assms(1) claimable_D(1) [OF r] reaped_D(1) [OF assms(3)] eq] .
  with eligible_not_exhausted claimable_D(2) [OF r] reaped_D(2) [OF assms(3)] show False by blast
qed

lemma in_reaped_id:
  "primary_key db \<Longrightarrow> r \<in> set db \<Longrightarrow> c_id r \<in> c_id ` set (reaped s queue db) \<longleftrightarrow> r \<in> set (reaped s queue db)"
  by (auto dest: primary_key_eq reaped_D(1))

lemma claim_step_cases:
  assumes "primary_key db" "r \<in> set db"
  shows "claim_step (s_clock s) (s_locked s) queue token worker us db r =
    (if r \<in> set (reaped s queue db) then exhausted_row (s_clock s) r
     else if r \<in> set (candidate s queue db) then claimed_row (s_clock s) token worker us r else r)"
proof -
  have "set (candidate s queue db) \<subseteq> set db"
    by (rule candidate_cases [of s queue db]) (auto dest: claimable_D)
  then have "c_id r \<in> c_id ` set (candidate s queue db) \<longleftrightarrow> r \<in> set (candidate s queue db)"
    using assms by (auto dest: primary_key_eq)
  with in_reaped_id [OF assms] show ?thesis by (simp add: claim_step_def)
qed

lemma claim_table_identity: "map identity (claim_table s request token db) = map identity db"
  by (simp add: claim_table_def claim_step_def)

lemma Microseconds_claim:
  "validateClaim request = None \<Longrightarrow>
   0 \<le> Microseconds (Claim_LeaseDuration request) \<and> Microseconds (Claim_LeaseDuration request) \<le> 86400000000"
  by (auto simp: validateClaim_None intro!: Microseconds_lease)

lemma granted_ok:
  assumes "claim_admitted s request token" "row_ok r" "claim_eligible (s_clock s) queue r"
  shows "row_ok (granted s request token r)"
  using assms Microseconds_claim eligible_budget
  by (intro claimed_row_ok) (auto simp: claim_admitted_def validateClaim_None)

lemma claim_table_rows_ok:
  assumes "claim_admitted s request token" "db_ok db" "x \<in> set (claim_table s request token db)"
  shows "row_ok x"
proof -
  from assms(3) obtain r where r: "r \<in> set db"
    "x = claim_step (s_clock s) (s_locked s) (Claim_Queue request) token (Claim_Worker request)
       (Microseconds (Claim_LeaseDuration request)) db r"
    by (auto simp: claim_table_def)
  have ok: "row_ok r" using db_ok_D(3) [OF assms(2) r(1)] .
  have "row_ok (exhausted_row (s_clock s) r)" if "r \<in> set (reaped s (Claim_Queue request) db)"
    using reaped_D(2) [OF that] assms(1) ok
    by (intro exhausted_row_ok) (auto simp: exhausted_match_def claim_admitted_def)
  moreover have "row_ok (granted s request token r)" if "r \<in> set (candidate s (Claim_Queue request) db)"
    using that by (cases rule: candidate_cases [of s "Claim_Queue request" db])
      (auto intro: granted_ok [OF assms(1) ok] dest: claimable_D)
  ultimately show ?thesis
    using ok r claim_step_cases [OF db_ok_D(1) [OF assms(2)] r(1)] by simp
qed

lemma claim_table_db_ok:
  "claim_admitted s request token \<Longrightarrow> db_ok db \<Longrightarrow> db_ok (claim_table s request token db)"
  by (rule db_ok_update [OF _ claim_table_identity]) (simp_all add: claim_table_rows_ok)

section \<open>The statement and the operation on a sound table\<close>

lemma query_claim:
  assumes "claim_admitted s request token" "db_ok db" "s_fault s n = None"
  shows "query_row s n (claimSQL (s_clock s) (s_locked s) (Claim_Queue request) token (Claim_Worker request)
      (Microseconds (Claim_LeaseDuration request))) db =
    (case candidate s (Claim_Queue request) db of
       [] \<Rightarrow> Inl (Sentinel pgx_ErrNoRows)
     | r # _ \<Rightarrow> Inr (raw_of_row (granted s request token r)), claim_table s request token db)"
proof -
  have "storable (exhausted_row (s_clock s) r)" if "r \<in> set (reaped s (Claim_Queue request) db)" for r
    using reaped_D(1,2) [OF that] assms(1) db_ok_D(3) [OF assms(2)]
    by (intro row_ok_storable exhausted_row_ok) (auto simp: exhausted_match_def claim_admitted_def)
  moreover have "storable (granted s request token r)" if "r \<in> set (candidate s (Claim_Queue request) db)" for r
    using that db_ok_D(3) [OF assms(2)]
    by (cases rule: candidate_cases [of s "Claim_Queue request" db])
      (auto intro!: row_ok_storable granted_ok [OF assms(1)] dest: claimable_D)
  ultimately show ?thesis
    using assms(3)
    by (auto simp: query_row_def run_stmt_def claimSQL_def Let_def list_all_iff claim_table_def split: list.splits)
qed

lemma Claim_run:
  assumes "healthy s" "usable repository ctx" "validateClaim request = None"
    "newLeaseToken (s_entropy s) = Inr token" "db_ok db" "clock_sane (s_clock s)"
  shows "Claim s repository ctx request db =
    (claim_table s request token db,
     case candidate s (Claim_Queue request) db of
       [] \<Rightarrow> (zero_Job, Some (Sentinel ErrNoJob))
     | r # _ \<Rightarrow> (job_of_row (granted s request token r), None))"
proof -
  have token: "token_ok token" using assms(4) by (rule newLeaseToken_ok)
  have adm: "claim_admitted s request token" using assms(3,6) token by (simp add: claim_admitted_def)
  have ctx: "ctx \<noteq> NilInterface" using usable_D(1) [OF assms(2)] .
  note q = query_claim [OF adm assms(5) healthy_D(3) [OF assms(1)], of 0]
  show ?thesis
  proof (cases rule: candidate_cases [of s "Claim_Queue request" db])
    case 1
    with q ctx token assms show ?thesis
      by (simp add: Claim_def claimWithToken_def claim_body_def zero_claimResult_def transact_def token_ok_def)
  next
    case (2 r)
    have "row_ok (granted s request token r)"
      using granted_ok [OF adm db_ok_D(3) [OF assms(5)]] claimable_D(1,2) [OF 2(1)] by blast
    with 2 q ctx token assms show ?thesis
      by (simp add: Claim_def claimWithToken_def claim_body_def zero_claimResult_def transact_def token_ok_def)
  qed
qed

lemma find_claim_table:
  assumes "primary_key db"
  shows "find_row i (claim_table s request token db) =
    map_option (\<lambda>r. if r \<in> set (reaped s (Claim_Queue request) db) then exhausted_row (s_clock s) r
      else if r \<in> set (candidate s (Claim_Queue request) db) then granted s request token r else r) (find_row i db)"
proof -
  have "c_id (claim_step (s_clock s) (s_locked s) (Claim_Queue request) token (Claim_Worker request)
       (Microseconds (Claim_LeaseDuration request)) db r) = c_id r" for r
    by (simp add: claim_step_def exhausted_row_def claimed_row_def)
  then have "find_row i (claim_table s request token db) = map_option
    (claim_step (s_clock s) (s_locked s) (Claim_Queue request) token (Claim_Worker request)
       (Microseconds (Claim_LeaseDuration request)) db) (find_row i db)"
    unfolding claim_table_def by (rule find_row_map)
  then show ?thesis
    using claim_step_cases [OF assms] find_row_Some [of i db] by (cases "find_row i db") auto
qed

text \<open>The row chosen is the row handed out.\<close>

lemma find_candidate:
  assumes "primary_key db" "candidate s (Claim_Queue request) db = [r]"
  shows "find_row (c_id r) (claim_table s request token db) = Some (granted s request token r)"
proof -
  have r: "r \<in> set (claimable s (Claim_Queue request) db)"
    using assms(2) by (cases rule: candidate_cases [of s "Claim_Queue request" db]) auto
  have "r \<notin> set (reaped s (Claim_Queue request) db)"
    using eligible_not_exhausted [OF claimable_D(2) [OF r]] reaped_D(2) by blast
  then show ?thesis
    using find_claim_table [OF assms(1)] find_row_member [OF assms(1) claimable_D(1) [OF r]] assms(2) by simp
qed

text \<open>
  What a claim promises, stated on the columns alone: which jobs are ready to be handed out,
  and the order they are served in.
\<close>

definition ready :: "script \<Rightarrow> string \<Rightarrow> row \<Rightarrow> bool" where
  "ready s queue r \<longleftrightarrow>
     c_queue r = queue \<and> c_id r \<notin> set (s_locked s) \<and>
     (c_state r = StatePending \<and> c_available_at r \<le> s_clock s 3 (c_id r) \<or>
      c_state r = StateRunning \<and> c_attempts r < c_max_attempts r \<and>
        (case c_lease_until r of None \<Rightarrow> False | Some u \<Rightarrow> u \<le> s_clock s 4 (c_id r)))"

definition due_time :: "row \<Rightarrow> timestamptz" where
  "due_time r =
     (if c_state r = StatePending then c_available_at r
      else case c_lease_until r of None \<Rightarrow> 0 | Some u \<Rightarrow> u)"

definition served_before :: "row \<Rightarrow> row \<Rightarrow> bool" where
  "served_before r x \<longleftrightarrow>
     due_time r < due_time x \<or>
     due_time r = due_time x \<and>
       (c_created_at r < c_created_at x \<or> c_created_at r = c_created_at x \<and> c_id r \<le> c_id x)"

lemma claimable_ready: "claimable s queue db = filter (ready s queue) db"
  by (auto simp: claimable_def ready_def claim_eligible_def expired_def state_defs intro!: filter_cong split: option.splits)

lemma claim_key_served: "claim_key r \<le> claim_key x \<longleftrightarrow> served_before r x"
  by (auto simp: claim_key_def served_before_def due_time_def until_key_def state_defs less_eq_prod_def less_prod_def)

text \<open>
  C7. \<^verbatim>\<open>Claim\<close> in a healthy environment. If no unlocked job of the queue is ready (pending
  and available by the database clock, or running with an expired lease and budget left) the
  answer is \<^verbatim>\<open>ErrNoJob\<close>. Otherwise the job handed out is the first ready one by due time
  (when it became available, or when its lease ended), then creation time, then id. Its row
  is now running with one more attempt spent, within its budget, under the fresh token and
  the requesting worker, its lease ends one lease duration after a reading of the database
  clock, a lease that expired is recorded in its last error, every other column is kept, and
  the job returned is the row stored.
\<close>

theorem Claim_behaviour:
  assumes "healthy s" "usable repository ctx" "validateClaim request = None"
    "newLeaseToken (s_entropy s) = Inr token" "db_ok db" "clock_sane (s_clock s)"
  shows "\<exists>db' job err. Claim s repository ctx request db = (db', job, err) \<and>
    (if \<forall>r \<in> set db. \<not> ready s (Claim_Queue request) r then job = zero_Job \<and> err = Some (Sentinel ErrNoJob)
     else err = None \<and> (\<exists>r r'. r \<in> set db \<and> ready s (Claim_Queue request) r \<and>
       (\<forall>x \<in> set db. ready s (Claim_Queue request) x \<longrightarrow> served_before r x) \<and>
       find_row (c_id r) db' = Some r' \<and> job = job_of_row r' \<and>
       r' = r\<lparr>c_state := StateRunning, c_attempts := c_attempts r + 1, c_lease_token := Some token,
         c_lease_owner := Some (Claim_Worker request),
         c_lease_until := Some (s_clock s 5 (c_id r) + Claim_LeaseDuration request div 1000),
         c_updated_at := s_clock s 6 (c_id r), c_finished_at := None,
         c_last_error := (if c_state r = StateRunning then ''lease expired before acknowledgement''
           else c_last_error r)\<rparr> \<and>
       Job_State job = StateRunning \<and> Job_Attempts job = c_attempts r + 1 \<and>
       Job_Attempts job \<le> Job_MaxAttempts job \<and>
       Job_Lease job = \<lparr>Lease_JobID = c_id r, Lease_Token = token\<rparr> \<and>
       Job_LeaseOwner job = Claim_Worker request \<and>
       Job_LeaseUntil job = time_of_pg (s_clock s 5 (c_id r) + Claim_LeaseDuration request div 1000)))"
proof (cases rule: candidate_cases [of s "Claim_Queue request" db])
  case 1
  then have "\<forall>r \<in> set db. \<not> ready s (Claim_Queue request) r" by (simp add: claimable_ready filter_empty_conv)
  with 1(2) Claim_run [OF assms] show ?thesis by simp
next
  case (2 r)
  let ?job = "job_of_row (granted s request token r)"
  have r: "r \<in> set db" "claim_eligible (s_clock s) (Claim_Queue request) r" using claimable_D [OF 2(1)] by blast+
  have f: "find_row (c_id r) (claim_table s request token db) = Some (granted s request token r)"
    using find_candidate [OF db_ok_D(1) [OF assms(5)] 2(2)] .
  have us: "Microseconds (Claim_LeaseDuration request) = Claim_LeaseDuration request div 1000"
    using assms(3) by (simp add: validateClaim_None Microseconds_nonneg)
  have first: "ready s (Claim_Queue request) r" "\<forall>x \<in> set db. ready s (Claim_Queue request) x \<longrightarrow> served_before r x"
    using 2 by (auto simp: claimable_ready claim_key_served)
  have run: "Claim s repository ctx request db = (claim_table s request token db, ?job, None)"
    using Claim_run [OF assms] 2(2) by simp
  have job: "Job_State ?job = StateRunning" "Job_Attempts ?job = c_attempts r + 1"
    "Job_Attempts ?job \<le> Job_MaxAttempts ?job" "Job_Lease ?job = \<lparr>Lease_JobID = c_id r, Lease_Token = token\<rparr>"
    "Job_LeaseOwner ?job = Claim_Worker request"
    "Job_LeaseUntil ?job = time_of_pg (s_clock s 5 (c_id r) + Claim_LeaseDuration request div 1000)"
    using eligible_budget [OF db_ok_D(3) [OF assms(5) r(1)] r(2)]
    by (simp_all add: claimed_row_def job_of_row_text state_defs us)
  have row: "granted s request token r = r\<lparr>c_state := StateRunning, c_attempts := c_attempts r + 1,
      c_lease_token := Some token, c_lease_owner := Some (Claim_Worker request),
      c_lease_until := Some (s_clock s 5 (c_id r) + Claim_LeaseDuration request div 1000),
      c_updated_at := s_clock s 6 (c_id r), c_finished_at := None,
      c_last_error := (if c_state r = StateRunning then ''lease expired before acknowledgement'' else c_last_error r)\<rparr>"
    by (simp add: claimed_row_def state_defs us)
  have "\<not> (\<forall>r \<in> set db. \<not> ready s (Claim_Queue request) r)" using r(1) first(1) by blast
  then show ?thesis
    by (intro exI [of _ "claim_table s request token db"] exI [of _ ?job] exI [of _ None] conjI run)
      (simp only: if_False, intro conjI refl exI [of _ r] exI [of _ "granted s request token r"] r(1) first f row job)
qed

definition sample_claim :: ClaimRequest where
  "sample_claim = \<lparr>Claim_Queue = ''q'', Claim_Worker = ''w'', Claim_LeaseDuration = 1000000000\<rparr>"

lemma sample_claim_valid [simp]: "validateClaim sample_claim = None"
  by (simp add: validateClaim_None sample_claim_def)

definition sample_pending :: row where
  "sample_pending = sample_running\<lparr>c_state := ''pending'', c_attempts := 0, c_lease_token := None,
     c_lease_owner := None, c_lease_until := None\<rparr>"

lemma sample_pending_ok [simp]: "db_ok [sample_pending]"
proof -
  have "row_ok sample_pending"
    by (rule row_okI)
      (use row_ok_scalars [OF sample_row_ok] in
        \<open>simp_all add: sample_pending_def row_shape_def known_states_def state_defs\<close>,
       simp_all add: sample_running_def)
  then show ?thesis by (simp add: db_ok_def primary_key_def gotth_jobs_idempotency_def)
qed

lemma sample_claimable: "claimable sample_script ''q'' [sample_pending] = [sample_pending]"
  by (simp add: claimable_def claim_eligible_def sample_pending_def sample_running_def sample_clock_def)

text \<open>A pending job that is not due yet at the sample clock.\<close>

definition sample_late :: row where
  "sample_late = sample_pending\<lparr>c_id := replicate 32 (CHR ''2''), c_available_at := 6000000\<rparr>"

lemma sample_late_ok: "db_ok [sample_late, sample_pending]"
proof -
  have ok: "row_ok sample_pending" using db_ok_D(3) [OF sample_pending_ok] by simp
  have "job_id_ok (replicate 32 (CHR ''2''))"
    by (simp add: job_id_ok_def isLowerHex_def lower_hex_char_def list_all_iff ord_def)
  moreover have "row_shape sample_late = row_shape sample_pending"
    by (simp add: row_shape_def sample_late_def)
  ultimately have "row_ok sample_late"
    by (intro row_okI)
      (use row_ok_scalars [OF ok] row_ok_shape [OF ok] in
        \<open>simp_all add: sample_late_def pg_instant_def pg_finite_def pg_zero_def\<close>)
  moreover have "sample_id \<noteq> replicate 32 (CHR ''2'')" by (simp add: sample_id_def replicate_eq_replicate)
  ultimately show ?thesis
    using ok by (simp add: db_ok_def primary_key_def gotth_jobs_idempotency_def sample_late_def sample_pending_def
        sample_running_def)
qed

theorem Claim_behaviour_witness:
  "\<exists>db' job r. Claim sample_script sample_repository sample_ctx sample_claim [sample_late, sample_pending] = (db', job, None) \<and>
     Job_Lease job = sample_lease \<and> Job_Attempts job = 1 \<and> Job_LeaseUntil job = time_of_pg 6000000 \<and>
     find_row sample_id db' = Some r \<and> c_state r = ''running'' \<and> c_attempts r = 1 \<and>
     c_lease_until r = Some 6000000 \<and> c_lease_owner r = Some ''w''"
proof -
  have "c_id sample_pending = sample_id" "c_attempts sample_pending = 0"
    by (simp_all add: sample_pending_def)
  moreover have "ready sample_script ''q'' sample_pending" "\<not> ready sample_script ''q'' sample_late"
    by (simp_all add: ready_def sample_late_def sample_pending_def sample_running_def sample_clock_def state_defs)
  ultimately show ?thesis
    using Claim_behaviour [OF sample_healthy sample_usable sample_claim_valid sample_newLeaseToken sample_late_ok]
    by (auto simp: sample_claim_def sample_lease_def sample_clock_def state_defs)
qed

section \<open>Claiming under every environment\<close>

lemma query_claim_Inr:
  assumes "query_row s n (claimSQL (s_clock s) (s_locked s) (Claim_Queue request) token (Claim_Worker request)
      (Microseconds (Claim_LeaseDuration request))) db = (row, db')"
  shows "db' = db \<and> (\<forall>raw. row \<noteq> Inr raw) \<or> db' = claim_table s request token db"
    "row = Inr raw \<Longrightarrow> \<exists>r. candidate s (Claim_Queue request) db = [r] \<and> raw = raw_of_row (granted s request token r)"
proof -
  show "db' = db \<and> (\<forall>raw. row \<noteq> Inr raw) \<or> db' = claim_table s request token db"
    using assms by (auto simp: query_row_def run_stmt_def claimSQL_def Let_def claim_table_def
        split: option.splits sum.splits list.splits if_splits)
  assume "row = Inr raw"
  with assms obtain r rs where "map (granted s request token) (candidate s (Claim_Queue request) db) = r # rs"
    "raw = raw_of_row r"
    by (auto simp: query_row_def run_stmt_def claimSQL_def Let_def
        split: option.splits sum.splits list.splits if_splits)
  then show "\<exists>r. candidate s (Claim_Queue request) db = [r] \<and> raw = raw_of_row (granted s request token r)"
    by (cases rule: candidate_cases [of s "Claim_Queue request" db]) auto
qed

lemma Claim_cases:
  assumes "Claim s repository ctx request db = (db', job, err)"
  obtains (kept) "db' = db" "err \<noteq> None"
  | (applied) token where "newLeaseToken (s_entropy s) = Inr token" "validateClaim request = None"
      "db' = claim_table s request token db"
proof (cases "usable repository ctx \<and> validateClaim request = None")
  case False
  then have "\<exists>j e. Claim s repository ctx request db = (db, j, Some e)" by (auto simp: Claim_def)
  with assms kept show ?thesis by auto
next
  case True
  show ?thesis
  proof (cases "newLeaseToken (s_entropy s)")
    case (Inl e)
    with True assms kept show ?thesis by (auto simp: Claim_def)
  next
    case (Inr token)
    have token: "token_ok token" using Inr by (rule newLeaseToken_ok)
    obtain db1 v e where t: "transact ctx s zero_claimResult (claim_body s request token) db = (db1, v, e)"
      using prod_cases3 by blast
    have run: "db1 = db'" "e = None \<Longrightarrow> (err = None \<longleftrightarrow> claimResult_found v)" "e \<noteq> None \<Longrightarrow> err \<noteq> None"
      using assms True Inr token t
      by (auto simp: Claim_def claimWithToken_def token_ok_def split: if_splits option.splits prod.splits)
    obtain row db2 where q: "query_row s 0 (claimSQL (s_clock s) (s_locked s) (Claim_Queue request) token
        (Claim_Worker request) (Microseconds (Claim_LeaseDuration request))) db = (row, db2)" by fastforce
    have body: "db' = claim_table s request token db \<or> db' = db \<and> \<not> claimResult_found v" if "claim_body s request token db = (db1, v, None)"
      using that q query_claim_Inr(1) [OF q] run(1)
      by (cases row) (auto simp: claim_body_def zero_claimResult_def split: sum.splits if_splits)
    from t show ?thesis
      by (cases rule: transact_cases) (use run body kept applied Inr True in blast)+
  qed
qed

lemma Claim_db_ok:
  assumes "Claim s repository ctx request db = (db', job, err)" "db_ok db" "clock_sane (s_clock s)"
  shows "db_ok db'"
  using assms(1)
  by (cases rule: Claim_cases)
    (use assms(2,3) claim_table_db_ok newLeaseToken_ok in \<open>auto simp: claim_admitted_def\<close>)

lemma Claim_row:
  assumes "Claim s repository ctx request db = (db', job, err)" "primary_key db" "find_row i db = Some r"
  obtains (same) "find_row i db' = Some r"
  | (exhausted) "exhausted_match (s_clock s) (Claim_Queue request) r"
      "find_row i db' = Some (exhausted_row (s_clock s) r)"
  | (given) token where "newLeaseToken (s_entropy s) = Inr token" "validateClaim request = None"
      "claim_eligible (s_clock s) (Claim_Queue request) r" "find_row i db' = Some (granted s request token r)"
  using assms(1)
proof (cases rule: Claim_cases)
  case kept
  with assms(3) same show ?thesis by simp
next
  case (applied token)
  have "claim_eligible (s_clock s) (Claim_Queue request) r" if "r \<in> set (candidate s (Claim_Queue request) db)"
    using that by (cases rule: candidate_cases [of s "Claim_Queue request" db]) (auto dest: claimable_D)
  with applied find_claim_table [OF assms(2), of i s request token] assms(3) same exhausted given reaped_D(2)
  show ?thesis by (simp split: if_splits)
qed

text \<open>
  A live lease is never taken away: under every environment a running job whose lease
  ends after every clock reading of the call is, after any \<^verbatim>\<open>Claim\<close> of any worker,
  exactly as it was.
\<close>

theorem live_lease_protected:
  assumes "Claim s repository ctx request db = (db', job, err)" "primary_key db"
    "find_row i db = Some r" "c_state r = StateRunning" "c_lease_until r = Some u" "\<And>n. s_clock s n i < u"
  shows "find_row i db' = Some r"
proof -
  have "\<not> expired (s_clock s n (c_id r)) r" for n
    using assms(5,6) find_row_Some [OF assms(3)] by (auto simp: expired_def not_le)
  with assms(1-3) show ?thesis
    by (cases rule: Claim_row)
      (use assms(4) in \<open>auto simp: exhausted_match_def claim_eligible_def state_defs\<close>)
qed

theorem live_lease_protected_witness:
  "\<exists>db' job err. Claim sample_script sample_repository sample_ctx sample_claim [sample_running] = (db', job, err) \<and>
     find_row sample_id db' = Some sample_running"
proof -
  obtain db' job err where c: "Claim sample_script sample_repository sample_ctx sample_claim [sample_running] = (db', job, err)"
    using prod_cases3 by blast
  have "find_row sample_id [sample_running] = Some sample_running" "c_state sample_running = StateRunning"
    "c_lease_until sample_running = Some 9000000" "\<And>n. s_clock sample_script n sample_id < 9000000"
    by (simp_all add: find_row_def sample_running_def state_defs sample_clock_def)
  from live_lease_protected [OF c db_ok_D(1) [OF sample_db_ok] this] c show ?thesis by blast
qed

section \<open>Reaping exhausted jobs\<close>

text \<open>The unlocked jobs of a queue whose lease ended on their final attempt, on the columns alone.\<close>

definition doomed :: "script \<Rightarrow> string \<Rightarrow> db \<Rightarrow> row list" where
  "doomed s queue db =
     filter (\<lambda>r. c_queue r = queue \<and> c_id r \<notin> set (s_locked s) \<and>
       c_state r = StateRunning \<and> c_attempts r \<ge> c_max_attempts r \<and>
       (case c_lease_until r of None \<Rightarrow> False | Some u \<Rightarrow> u \<le> s_clock s 0 (c_id r))) db"

definition reap_key :: "row \<Rightarrow> timestamptz \<times> timestamptz \<times> string" where
  "reap_key r = (case c_lease_until r of None \<Rightarrow> 0 | Some u \<Rightarrow> u, c_created_at r, c_id r)"

lemma doomed_exhausted:
  "doomed s queue db = filter (\<lambda>r. exhausted_match (s_clock s) queue r \<and> c_id r \<notin> set (s_locked s)) db"
  by (auto simp: doomed_def exhausted_match_def expired_def state_defs intro!: filter_cong split: option.splits)

lemma reap_key_until: "reap_key = (\<lambda>r. (until_key r, c_created_at r, c_id r))"
  by (rule ext) (simp add: reap_key_def until_key_def)

lemma reaped_least:
  assumes "r \<in> set (reaped s queue db)" "x \<in> set (doomed s queue db)" "x \<notin> set (reaped s queue db)"
  shows "reap_key r \<le> reap_key x"
  using top_by_least [of r reap_key 100 "doomed s queue db" x] assms
  by (simp add: expired_exhausted_def doomed_exhausted reap_key_until)

lemma reaped_doomed:
  assumes "primary_key db"
  shows "distinct (reaped s queue db)" "set (reaped s queue db) \<subseteq> set (doomed s queue db)"
    "length (reaped s queue db) = min 100 (length (doomed s queue db))"
proof -
  have "distinct (doomed s queue db)"
    using assms by (simp add: doomed_exhausted primary_key_def distinct_map)
  then show "distinct (reaped s queue db)"
    by (simp add: expired_exhausted_def top_by_def doomed_exhausted)
  show "set (reaped s queue db) \<subseteq> set (doomed s queue db)"
    using reaped_D by (fastforce simp: doomed_exhausted)
  show "length (reaped s queue db) = min 100 (length (doomed s queue db))"
    by (simp add: expired_exhausted_def top_by_def doomed_exhausted min.commute)
qed

lemma reaped_full:
  assumes "primary_key db" "r \<in> set (doomed s queue db)" "r \<notin> set (reaped s queue db)"
  shows "100 \<le> card (c_id ` set (reaped s queue db))"
proof -
  have "100 \<le> length (reaped s queue db)"
  proof (rule ccontr)
    assume "\<not> 100 \<le> length (reaped s queue db)"
    then have "length (reaped s queue db) = length (doomed s queue db)" using reaped_doomed(3) [OF assms(1), of s queue] by simp
    moreover have "distinct (doomed s queue db)" using assms(1) by (simp add: doomed_exhausted primary_key_def distinct_map)
    ultimately have "set (reaped s queue db) = set (doomed s queue db)"
      using reaped_doomed(1,2) [OF assms(1)] by (metis card_subset_eq distinct_card finite_set)
    with assms(2,3) show False by simp
  qed
  moreover have "inj_on c_id (set (reaped s queue db))"
    using primary_key_eq [OF assms(1)] reaped_D(1) by (intro inj_onI) blast
  ultimately show ?thesis using reaped_doomed(1) [OF assms(1)] by (simp add: card_image distinct_card)
qed

text \<open>
  C25. Reaping. A \<^verbatim>\<open>Claim\<close> in a healthy environment turns exactly the first hundred
  (or all, when there are fewer), by lease end, creation time and id, of the unlocked jobs
  of the queue whose lease expired on their final attempt into dead jobs: no lease, finished
  and updated at the database clock, the last error saying that the lease expired after the
  final attempt, and every other column kept. It does so whether or not a job is handed out,
  and changes no row besides those and the one handed out.
\<close>

theorem Claim_reaps:
  assumes "healthy s" "usable repository ctx" "validateClaim request = None"
    "newLeaseToken (s_entropy s) = Inr token" "db_ok db" "clock_sane (s_clock s)"
  shows "\<exists>db' job err dead. Claim s repository ctx request db = (db', job, err) \<and> distinct dead \<and>
    set dead \<subseteq> set (doomed s (Claim_Queue request) db) \<and>
    length dead = min 100 (length (doomed s (Claim_Queue request) db)) \<and>
    (\<forall>r \<in> set dead. \<forall>x \<in> set (doomed s (Claim_Queue request) db). x \<notin> set dead \<longrightarrow> reap_key r \<le> reap_key x) \<and>
    (\<forall>r \<in> set dead. find_row (c_id r) db' = Some (r\<lparr>c_state := StateDead,
       c_lease_token := None, c_lease_owner := None, c_lease_until := None,
       c_finished_at := Some (s_clock s 1 (c_id r)), c_updated_at := s_clock s 2 (c_id r),
       c_last_error := ''lease expired after final attempt''\<rparr>)) \<and>
    (\<forall>r \<in> set db. r \<notin> set dead \<and> Lease_JobID (Job_Lease job) \<noteq> c_id r \<longrightarrow> find_row (c_id r) db' = Some r)"
proof -
  let ?dead = "reaped s (Claim_Queue request) db"
  let ?cand = "candidate s (Claim_Queue request) db"
  have pk: "primary_key db" using assms(5) by (rule db_ok_D)
  have f: "find_row (c_id r) db = Some r" if "r \<in> set db" for r
    using find_row_member [OF pk that] .
  obtain job err where c: "Claim s repository ctx request db = (claim_table s request token db, job, err)"
    "(job, err) = (case ?cand of [] \<Rightarrow> (zero_Job, Some (Sentinel ErrNoJob))
       | r # _ \<Rightarrow> (job_of_row (granted s request token r), None))"
    using Claim_run [OF assms] by (metis surj_pair)
  have "c_id r = Lease_JobID (Job_Lease job)" if "r \<in> set ?cand" for r
    using that c(2) by (cases rule: candidate_cases [of s "Claim_Queue request" db])
      (auto simp: claimed_row_def job_of_row_text)
  then have "find_row (c_id r) (claim_table s request token db) = Some r"
    if "r \<in> set db" "r \<notin> set ?dead" "Lease_JobID (Job_Lease job) \<noteq> c_id r" for r
    using that f [OF that(1)] find_claim_table [OF pk] by auto
  moreover have "find_row (c_id r) (claim_table s request token db) = Some (r\<lparr>c_state := StateDead,
       c_lease_token := None, c_lease_owner := None, c_lease_until := None,
       c_finished_at := Some (s_clock s 1 (c_id r)), c_updated_at := s_clock s 2 (c_id r),
       c_last_error := ''lease expired after final attempt''\<rparr>)"
    if "r \<in> set ?dead" for r
    using that f [OF reaped_D(1) [OF that]] find_claim_table [OF pk] by (simp add: exhausted_row_def state_defs)
  ultimately show ?thesis
    using c(1) reaped_doomed [OF pk] reaped_least by (intro exI [of _ "claim_table s request token db"] exI [of _ job]
        exI [of _ err] exI [of _ ?dead]) auto
qed

definition sample_exhausted :: row where
  "sample_exhausted = sample_running\<lparr>c_attempts := 2, c_lease_until := Some 3000000\<rparr>"

lemma sample_exhausted_ok: "db_ok [sample_exhausted]"
proof -
  have "row_ok sample_exhausted"
    by (rule row_okI)
      (use row_ok_scalars [OF sample_row_ok] row_ok_shape [OF sample_row_ok] in
        \<open>simp_all add: sample_exhausted_def row_shape_def state_defs\<close>,
       simp_all add: sample_running_def pg_instant_def pg_finite_def pg_zero_def)
  then show ?thesis by (simp add: db_ok_def primary_key_def gotth_jobs_idempotency_def)
qed

theorem Claim_reaps_witness:
  "\<exists>db' job err. Claim sample_script sample_repository sample_ctx sample_claim [sample_exhausted] = (db', job, err) \<and>
     (\<exists>r. find_row sample_id db' = Some r \<and> c_state r = ''dead'' \<and> c_lease_token r = None \<and>
        c_lease_until r = None \<and> c_finished_at r = Some 5000000 \<and>
        c_last_error r = ''lease expired after final attempt'')"
proof -
  have d: "doomed sample_script ''q'' [sample_exhausted] = [sample_exhausted]"
    by (simp add: doomed_def state_defs sample_exhausted_def sample_running_def sample_clock_def)
  obtain db' job err dead where
    c: "Claim sample_script sample_repository sample_ctx sample_claim [sample_exhausted] = (db', job, err)"
    and dead: "set dead \<subseteq> {sample_exhausted}" "length dead = 1"
      "\<forall>r \<in> set dead. find_row (c_id r) db' = Some (r\<lparr>c_state := StateDead,
       c_lease_token := None, c_lease_owner := None, c_lease_until := None,
       c_finished_at := Some (sample_clock 1 (c_id r)), c_updated_at := sample_clock 2 (c_id r),
       c_last_error := ''lease expired after final attempt''\<rparr>)"
    using Claim_reaps [OF sample_healthy sample_usable sample_claim_valid sample_newLeaseToken sample_exhausted_ok]
    by (auto simp: d sample_claim_def)
  from dead(1,2) have "dead = [sample_exhausted]" by (cases dead) auto
  moreover have "c_id sample_exhausted = sample_id" by (simp add: sample_exhausted_def)
  ultimately show ?thesis using c dead(3) by (auto simp: state_defs sample_clock_def)
qed

section \<open>What a confirmed claim returns\<close>

lemma Claim_Ok:
  assumes "Claim s repository ctx request db = (db', job, None)" "db_ok db" "clock_sane (s_clock s)"
  obtains token r where "newLeaseToken (s_entropy s) = Inr token" "validateClaim request = None"
    "r \<in> set (claimable s (Claim_Queue request) db)" "candidate s (Claim_Queue request) db = [r]"
    "row_ok (granted s request token r)" "job = job_of_row (granted s request token r)"
    "db' = claim_table s request token db"
proof -
  from assms(1) obtain token where t: "newLeaseToken (s_entropy s) = Inr token" "validateClaim request = None"
    and run: "\<exists>v. transact ctx s zero_claimResult (claim_body s request token) db = (db', v, None) \<and>
      claimResult_found v \<and> job = claimResult_job v"
    by (auto simp: Claim_def claimWithToken_def split: if_splits option.splits sum.splits prod.splits)
  from run obtain v where "transact ctx s zero_claimResult (claim_body s request token) db = (db', v, None)"
    "claimResult_found v" "job = claimResult_job v" by (elim exE conjE)
  note v = transact_Ok [OF this(1)] this(2,3)
  have adm: "claim_admitted s request token"
    using t newLeaseToken_ok [OF t(1)] assms(3) by (simp add: claim_admitted_def)
  obtain row db2 where q: "query_row s 0 (claimSQL (s_clock s) (s_locked s) (Claim_Queue request) token
      (Claim_Worker request) (Microseconds (Claim_LeaseDuration request))) db = (row, db2)" by fastforce
  from v q have scan: "scanJob row = Inr job" "db' = db2"
    by (auto simp: claim_body_def zero_claimResult_def split: sum.splits if_splits)
  then obtain raw where raw: "row = Inr raw" by (cases row) auto
  from query_claim_Inr(2) [OF q raw] obtain r where
    r: "candidate s (Claim_Queue request) db = [r]" "raw = raw_of_row (granted s request token r)" by blast
  from r(1) have c: "r \<in> set (claimable s (Claim_Queue request) db)"
    by (cases rule: candidate_cases [of s "Claim_Queue request" db]) auto
  have ok: "row_ok (granted s request token r)"
    using granted_ok [OF adm db_ok_D(3) [OF assms(2)]] claimable_D(1,2) [OF c] by blast
  with scan raw r have "job = job_of_row (granted s request token r)" by simp
  moreover have "db' = claim_table s request token db" using query_claim_Inr(1) [OF q] raw scan(2) by simp
  ultimately show ?thesis using that t c r(1) ok by blast
qed

text \<open>
  C5. Mutual exclusion of claims. After a confirmed claim, a second confirmed claim by
  any worker, in any environment whose clock readings for that job lie before the end of the
  first lease, hands out a different job: two live leases never cover the same job.
\<close>

theorem claims_exclusive:
  assumes "Claim s repository ctx request db = (db1, job1, None)"
    "Claim s' repository' ctx' request' db1 = (db2, job2, None)"
    "db_ok db" "clock_sane (s_clock s)" "clock_sane (s_clock s')"
    "\<And>n. Before (time_of_pg (s_clock s' n (Job_ID job1))) (Job_LeaseUntil job1)"
  shows "Job_ID job2 \<noteq> Job_ID job1"
proof -
  obtain token r where 1: "candidate s (Claim_Queue request) db = [r]" "r \<in> set (claimable s (Claim_Queue request) db)"
    "job1 = job_of_row (granted s request token r)" "db1 = claim_table s request token db"
    using Claim_Ok [OF assms(1,3,4)] by metis
  have ok1: "db_ok db1" using Claim_db_ok [OF assms(1,3,4)] .
  obtain token' r' where 2: "r' \<in> set (claimable s' (Claim_Queue request') db1)"
    "job2 = job_of_row (granted s' request' token' r')"
    using Claim_Ok [OF assms(2) ok1 assms(5)] by metis
  have f: "find_row (c_id r) db1 = Some (granted s request token r)"
    using find_candidate [OF db_ok_D(1) [OF assms(3)] 1(1)] 1(4) by simp
  have id: "Job_ID job1 = c_id r" "Job_ID job2 = c_id r'" using 1(3) 2(2) by (simp_all add: claimed_row_def)
  show ?thesis
  proof
    assume "Job_ID job2 = Job_ID job1"
    then have "r' = granted s request token r"
      using find_row_member [OF db_ok_D(1) [OF ok1] claimable_D(1) [OF 2(1)]] f id by simp
    moreover have "\<not> expired (s_clock s' n (c_id r)) (granted s request token r)" for n
      using assms(6) [of n] 1(3) id(1) by (simp add: expired_def claimed_row_def not_le)
    ultimately show False
      using claimable_D(2) [OF 2(1)] by (simp add: claim_eligible_def) (simp add: claimed_row_def)
  qed
qed

definition sample_second :: row where
  "sample_second = sample_pending\<lparr>c_id := replicate 32 (CHR ''1''), c_created_at := 1500000\<rparr>"

lemma sample_pair_ok: "db_ok [sample_pending, sample_second]"
proof -
  have ok: "row_ok sample_pending" using db_ok_D(3) [OF sample_pending_ok] by simp
  have "job_id_ok (replicate 32 (CHR ''1''))"
    by (simp add: job_id_ok_def isLowerHex_def lower_hex_char_def list_all_iff ord_def)
  moreover have "row_shape sample_second = row_shape sample_pending"
    by (simp add: row_shape_def sample_second_def)
  ultimately have "row_ok sample_second"
    by (intro row_okI)
      (use row_ok_scalars [OF ok] row_ok_shape [OF ok] in
        \<open>simp_all add: sample_second_def pg_instant_def pg_finite_def pg_zero_def\<close>)
  moreover have "sample_id \<noteq> replicate 32 (CHR ''1'')" by (simp add: sample_id_def replicate_eq_replicate)
  ultimately show ?thesis
    using ok by (simp add: db_ok_def primary_key_def gotth_jobs_idempotency_def sample_second_def sample_pending_def
        sample_running_def)
qed

lemma sample_pair_claim:
  assumes "rows = [sample_pending, sample_second]"
  shows "candidate sample_script ''q'' rows = [sample_pending]" "reaped sample_script ''q'' rows = []"
  using assms by (simp_all add: claim_candidate_def expired_exhausted_def top_by_def claim_eligible_def exhausted_match_def
      claim_key_def sample_second_def sample_pending_def sample_running_def sample_clock_def)

theorem claims_exclusive_witness:
  "\<exists>db1 db2 job1 job2.
     Claim sample_script sample_repository sample_ctx sample_claim [sample_pending, sample_second] = (db1, job1, None) \<and>
     Claim sample_script sample_repository sample_ctx sample_claim db1 = (db2, job2, None) \<and>
     Job_ID job2 \<noteq> Job_ID job1"
proof -
  let ?db = "[sample_pending, sample_second]" and ?g = "granted sample_script sample_claim sample_token sample_pending"
  let ?db1 = "claim_table sample_script sample_claim sample_token ?db"
  have q: "Claim_Queue sample_claim = ''q''" by (simp add: sample_claim_def)
  note run = Claim_run [OF sample_healthy sample_usable sample_claim_valid sample_newLeaseToken]
  have c1: "Claim sample_script sample_repository sample_ctx sample_claim ?db = (?db1, job_of_row ?g, None)"
    using run [OF sample_pair_ok] sample_pair_claim [OF refl] by (simp add: q)
  have ok1: "db_ok ?db1" using Claim_db_ok [OF c1 sample_pair_ok] by simp
  have d: "sample_pending \<noteq> sample_second"
    by (simp add: sample_second_def sample_pending_def sample_running_def)
  then have "sample_second \<in> set ?db1"
    using claim_step_cases [OF db_ok_D(1) [OF sample_pair_ok], of sample_second sample_script "''q''"]
      sample_pair_claim [OF refl]
    by (simp add: claim_table_def q)
  then have "sample_second \<in> set (claimable sample_script ''q'' ?db1)"
    by (simp add: claimable_def) (simp add: claim_eligible_def sample_second_def sample_pending_def sample_running_def sample_clock_def)
  then obtain r where "candidate sample_script ''q'' ?db1 = [r]"
    by (cases rule: candidate_cases [of sample_script "''q''" ?db1]) auto
  then obtain db2 job2 where c2: "Claim sample_script sample_repository sample_ctx sample_claim ?db1 = (db2, job2, None)"
    using run [OF ok1] by (simp add: q)
  have "Before (time_of_pg (s_clock sample_script n (Job_ID (job_of_row ?g)))) (Job_LeaseUntil (job_of_row ?g))" for n
    by (simp add: claimed_row_def sample_clock_def sample_claim_def Microseconds_nonneg)
  with claims_exclusive [OF c1 c2 sample_pair_ok] c1 c2 show ?thesis by fastforce
qed

end
