(* ===== verification/Operations.thy ===== *)
theory Operations
  imports Claiming
begin

text \<open>
  \<^verbatim>\<open>operations.go\<close>: the reads \<^verbatim>\<open>Get\<close>, \<^verbatim>\<open>Counts\<close> and \<^verbatim>\<open>ListDead\<close>, and the
  administrative transitions \<^verbatim>\<open>Cancel\<close> and \<^verbatim>\<open>Redrive\<close>, whose statements interpret
  \<open>keyed_update\<close>. A read runs outside a transaction and returns a value and an error;
  it has no table to return.
\<close>

section \<open>Statements\<close>

definition getSQL :: "string \<Rightarrow> stmt" where
  "getSQL i = sql_select (\<lambda>r. c_id r = i)"

definition countsSQL :: "string \<Rightarrow> db \<Rightarrow> int \<times> int \<times> int \<times> int \<times> int \<times> int" where
  "countsSQL queue db =
     (let rows = filter (\<lambda>r. c_queue r = queue) db;
          count = (\<lambda>state. int (length (filter (\<lambda>r. c_state r = state) rows)))
      in (count ''pending'', count ''running'', count ''succeeded'', count ''dead'', count ''canceled'',
          int (length rows)))"

text \<open>
  The row comparison \<^verbatim>\<open>(finished_at, id) > ($2, $3)\<close> is NULL, so not true, when
  \<^verbatim>\<open>finished_at\<close> is NULL; the schema gives every dead row a finish time.
\<close>

definition after_cursor :: "timestamptz option \<Rightarrow> string \<Rightarrow> row \<Rightarrow> bool" where
  "after_cursor cursorTime cursorID r =
     (case cursorTime of
        None \<Rightarrow> True
      | Some t \<Rightarrow> (case c_finished_at r of None \<Rightarrow> False | Some f \<Rightarrow> (f, c_id r) > (t, cursorID)))"

definition finish_key :: "row \<Rightarrow> timestamptz \<times> string" where
  "finish_key r = (case c_finished_at r of Some f \<Rightarrow> f | None \<Rightarrow> 0, c_id r)"

definition listDeadSQL :: "string \<Rightarrow> timestamptz option \<Rightarrow> string \<Rightarrow> nat \<Rightarrow> stmt" where
  "listDeadSQL queue cursorTime cursorID limit db =
     Inr (top_by finish_key limit
            (filter (\<lambda>r. c_queue r = queue \<and> c_state r = ''dead'' \<and> after_cursor cursorTime cursorID r) db), db)"

text \<open>Readings 0 (finished_at) and 1 (updated_at).\<close>

definition canceled_row :: "clock \<Rightarrow> row \<Rightarrow> row" where
  "canceled_row clk r =
     r\<lparr>c_state := ''canceled'', c_lease_token := None, c_lease_owner := None, c_lease_until := None,
       c_finished_at := Some (clk 0 (c_id r)), c_updated_at := clk 1 (c_id r)\<rparr>"

definition cancelable :: "string \<Rightarrow> row \<Rightarrow> bool" where
  "cancelable i r \<longleftrightarrow> c_id r = i \<and> c_state r \<in> set [''pending'', ''running'']"

definition cancelSQL :: "clock \<Rightarrow> string \<Rightarrow> stmt" where
  "cancelSQL clk i = sql_update (cancelable i) (canceled_row clk)"

text \<open>Readings 0 (available_at) and 1 (updated_at).\<close>

definition redriven_row :: "clock \<Rightarrow> row \<Rightarrow> row" where
  "redriven_row clk r =
     r\<lparr>c_state := ''pending'', c_attempts := 0, c_available_at := clk 0 (c_id r),
       c_lease_token := None, c_lease_owner := None, c_lease_until := None,
       c_last_error := '''', c_finished_at := None, c_updated_at := clk 1 (c_id r)\<rparr>"

definition redrivable :: "string \<Rightarrow> row \<Rightarrow> bool" where
  "redrivable i r \<longleftrightarrow> c_id r = i \<and> c_state r = ''dead''"

definition redriveSQL :: "clock \<Rightarrow> string \<Rightarrow> stmt" where
  "redriveSQL clk i = sql_update (redrivable i) (redriven_row clk)"

section \<open>Operations\<close>

definition validateRead :: "repository \<Rightarrow> ctx \<Rightarrow> error" where
  "validateRead repository ctx =
     (if \<not> usable repository ctx then Some (invalid ''repository and context are required'') else None)"

definition validateJobID :: "string \<Rightarrow> error" where
  "validateJobID i =
     (if length i \<noteq> 32 \<or> \<not> isLowerHex i then Some (invalid ''job ID is invalid'') else None)"

definition validateMutation :: "repository \<Rightarrow> ctx \<Rightarrow> string \<Rightarrow> error" where
  "validateMutation repository ctx i = or_else (validateRead repository ctx) (validateJobID i)"

definition Get :: "script \<Rightarrow> repository \<Rightarrow> ctx \<Rightarrow> string \<Rightarrow> db \<Rightarrow> Job \<times> error" where
  "Get s repository ctx i db =
     (case or_else (validateRead repository ctx) (validateJobID i) of
        Some err \<Rightarrow> (zero_Job, Some err)
      | None \<Rightarrow>
         (case scanJob (fst (query_row s 0 (getSQL i) db)) of
            Inl err \<Rightarrow>
              if errors_Is err pgx_ErrNoRows then (zero_Job, Some (Sentinel ErrNotFound))
              else (zero_Job, Some (errorf_wrap ''get job'' err))
          | Inr job \<Rightarrow> (job, None)))"

text \<open>The sum of the counters is Go's int64 sum.\<close>

definition Counts_op :: "script \<Rightarrow> repository \<Rightarrow> ctx \<Rightarrow> string \<Rightarrow> db \<Rightarrow> Counts \<times> error" where
  "Counts_op s repository ctx queue db =
     (case or_else (validateRead repository ctx) (validateName ''queue'' queue MaxQueueBytes) of
        Some err \<Rightarrow> (zero_Counts, Some err)
      | None \<Rightarrow>
         (case s_fault s 0 of
            Some err \<Rightarrow> (zero_Counts, Some (errorf_wrap ''count jobs'' err))
          | None \<Rightarrow>
             (let (pending, running, succeeded, dead, canceled, total) = countsSQL queue db;
                  known = int64 (int64 (int64 (int64 (pending + running) + succeeded) + dead) + canceled)
              in if total \<noteq> known then (zero_Counts, Some (Opaque ''count jobs: corrupt stored state totals''))
                 else (\<lparr>Count_Pending = pending, Count_Running = running, Count_Succeeded = succeeded,
                        Count_Dead = dead, Count_Canceled = canceled\<rparr>, None))))"

text \<open>The loop over \<^verbatim>\<open>rows.Next()\<close>, with the jobs appended so far.\<close>

fun scan_dead :: "row list \<Rightarrow> Job list \<Rightarrow> Job list result" where
  "scan_dead [] jobs = Inr jobs"
| "scan_dead (r # rows) jobs =
     (case scanJob (Inr (raw_of_row r)) of
        Inl scanErr \<Rightarrow> Inl (errorf_wrap ''scan dead job'' scanErr)
      | Inr job \<Rightarrow>
          if Job_State job \<noteq> StateDead
          then Inl (Opaque (''dead-letter query returned state \"'' @ Job_State job @ ''\"''))
          else scan_dead rows (jobs @ [job]))"

text \<open>
  Fault 0 is the query's, fault 1 the one \<^verbatim>\<open>rows.Err()\<close> reports after the loop: then
  only the rows delivered before it were iterated. A nil slice is \<^const>\<open>None\<close>.
\<close>

definition cursor_arguments :: "DeadCursor option \<Rightarrow> (timestamptz option \<times> string) result" where
  "cursor_arguments cursor =
     (case cursor of
        None \<Rightarrow> Inr (None, '''')
      | Some c \<Rightarrow>
          if \<not> isPostgreSQLTimestamp (Cursor_FinishedAt c)
          then Inl (invalid ''dead-letter cursor time is invalid'')
          else if validateJobID (Cursor_ID c) \<noteq> None
          then Inl (invalid ''dead-letter cursor ID is invalid'')
          else Inr (Some (pg_of_time (Cursor_FinishedAt c)), Cursor_ID c))"

definition ListDead ::
  "script \<Rightarrow> repository \<Rightarrow> ctx \<Rightarrow> string \<Rightarrow> DeadCursor option \<Rightarrow> int \<Rightarrow> db \<Rightarrow> Job list option \<times> error" where
  "ListDead s repository ctx queue cursor limit db =
     (case or_else (validateRead repository ctx) (validateName ''queue'' queue MaxQueueBytes) of
        Some err \<Rightarrow> (None, Some err)
      | None \<Rightarrow>
         if limit < 1 \<or> limit > MaxDeadPage
         then (None, Some (invalid ''dead-letter limit must be between 1 and 100''))
         else
          (case cursor_arguments cursor of
             Inl err \<Rightarrow> (None, Some err)
           | Inr (cursorTime, cursorID) \<Rightarrow>
              (case run_stmt s 0 (listDeadSQL queue cursorTime cursorID (nat limit)) db of
                 Inl err \<Rightarrow> (None, Some (errorf_wrap ''list dead jobs'' err))
               | Inr (rows, _) \<Rightarrow>
                  (case scan_dead (if s_fault s 1 = None then rows else take (s_delivered s) rows) [] of
                     Inl err \<Rightarrow> (None, Some err)
                   | Inr jobs \<Rightarrow>
                      (case s_fault s 1 of
                         Some err \<Rightarrow> (None, Some (errorf_wrap ''iterate dead jobs'' err))
                       | None \<Rightarrow> (Some jobs, None))))))"

definition Cancel :: "script \<Rightarrow> repository \<Rightarrow> ctx \<Rightarrow> string \<Rightarrow> Job body" where
  "Cancel s repository ctx i db =
     (case validateMutation repository ctx i of
        Some err \<Rightarrow> (db, zero_Job, Some err)
      | None \<Rightarrow> transact ctx s zero_Job (\<lambda>db.
          let (row, db1) = query_row s 0 (cancelSQL (s_clock s) i) db
          in case scanJob row of
               Inr job \<Rightarrow> (db1, job, None)
             | Inl err \<Rightarrow>
                if \<not> errors_Is err pgx_ErrNoRows
                then (db1, zero_Job, Some (errorf_wrap ''cancel job'' err))
                else (case scanJob (fst (query_row s 1 (getSQL i) (s_later s db1))) of
                        Inl err \<Rightarrow>
                          if errors_Is err pgx_ErrNoRows then (db1, zero_Job, Some (Sentinel ErrNotFound))
                          else (db1, zero_Job, Some (errorf_wrap ''read unmodified job after cancel'' err))
                      | Inr job \<Rightarrow>
                          if Job_State job = StateCanceled then (db1, job, None)
                          else (db1, zero_Job, Some (Sentinel ErrStateConflict)))) db)"

definition Redrive :: "script \<Rightarrow> repository \<Rightarrow> ctx \<Rightarrow> string \<Rightarrow> Job body" where
  "Redrive s repository ctx i db =
     (case validateMutation repository ctx i of
        Some err \<Rightarrow> (db, zero_Job, Some err)
      | None \<Rightarrow> transact ctx s zero_Job (\<lambda>db.
          let (row, db1) = query_row s 0 (redriveSQL (s_clock s) i) db
          in case scanJob row of
               Inr job \<Rightarrow> (db1, job, None)
             | Inl err \<Rightarrow>
                if \<not> errors_Is err pgx_ErrNoRows
                then (db1, zero_Job, Some (errorf_wrap ''redrive job'' err))
                else (case scanJob (fst (query_row s 1 (getSQL i) (s_later s db1))) of
                        Inl err \<Rightarrow>
                          if errors_Is err pgx_ErrNoRows then (db1, zero_Job, Some (Sentinel ErrNotFound))
                          else (db1, zero_Job, Some (errorf_wrap ''read unmodified job after redrive'' err))
                      | Inr _ \<Rightarrow> (db1, zero_Job, Some (Sentinel ErrStateConflict)))) db)"

section \<open>Transitions keep the row invariant\<close>

lemma canceled_row_ok:
  assumes "row_ok r" "clock_sane clk"
  shows "row_ok (canceled_row clk r)"
  by (rule row_okI)
    (use row_ok_scalars [OF assms(1)] clock_sane_instant [OF assms(2), of 0] in
      \<open>simp_all add: canceled_row_def row_shape_def known_states_def state_defs\<close>)

lemma redriven_row_ok:
  assumes "row_ok r" "clock_sane clk"
  shows "row_ok (redriven_row clk r)"
  by (rule row_okI)
    (use row_ok_scalars [OF assms(1)] clock_sane_instant [OF assms(2), of 0] in
      \<open>simp_all add: redriven_row_def row_shape_def known_states_def state_defs\<close>)

lemma admin_identity [simp]:
  "identity (canceled_row clk r) = identity r" "identity (redriven_row clk r) = identity r"
  by (simp_all add: identity_def canceled_row_def redriven_row_def)

interpretation cn: keyed_update
  "\<lambda>(clk :: clock, i). i" "\<lambda>(clk, i). clock_sane clk" "\<lambda>(clk, i). cancelable i" "\<lambda>(clk, i). canceled_row clk"
  by unfold_locales (auto simp: cancelable_def canceled_row_ok)

interpretation rd: keyed_update
  "\<lambda>(clk :: clock, i). i" "\<lambda>(clk, i). clock_sane clk" "\<lambda>(clk, i). redrivable i" "\<lambda>(clk, i). redriven_row clk"
  by unfold_locales (auto simp: redrivable_def redriven_row_ok)

lemma validateRead_None [simp]: "validateRead repository ctx = None \<longleftrightarrow> usable repository ctx"
  by (simp add: validateRead_def)

lemma validateJobID_None [simp]: "validateJobID i = None \<longleftrightarrow> job_id_ok i"
  by (auto simp: validateJobID_def job_id_ok_def)

lemma validateRead_ok [simp]: "usable repository ctx \<Longrightarrow> validateRead repository ctx = None"
  by simp

lemma validateJobID_ok [simp]: "job_id_ok i \<Longrightarrow> validateJobID i = None"
  by simp

lemma validateName_queue_ok [simp]: "name_ok 128 queue \<Longrightarrow> validateName ''queue'' queue MaxQueueBytes = None"
  by (simp add: go_defs)

lemma validateMutation_ok [simp]:
  "usable repository ctx \<Longrightarrow> job_id_ok i \<Longrightarrow> validateMutation repository ctx i = None"
  by (simp add: validateMutation_def)

lemma query_get:
  assumes "db_ok db" "s_fault s n = None"
  shows "query_row s n (getSQL i) db =
    (case find_row i db of None \<Rightarrow> Inl (Sentinel pgx_ErrNoRows) | Some r \<Rightarrow> Inr (raw_of_row r), db)"
  using filter_id_find [OF db_ok_D(1) [OF assms(1)], of i "\<lambda>_. True"] assms(2)
  by (simp add: query_row_def run_stmt_def getSQL_def sql_select_def split: option.splits)

lemma find_row_ok: "db_ok db \<Longrightarrow> find_row i db = Some r \<Longrightarrow> row_ok r \<and> c_id r = i"
  using db_ok_D(3) find_row_Some by blast

text \<open>
  \<^verbatim>\<open>Get\<close> is an exact read: in a healthy environment it returns the stored job with
  the given id, every column decoded, or \<^verbatim>\<open>ErrNotFound\<close> when there is none.
\<close>

theorem Get_behaviour:
  assumes "healthy s" "usable repository ctx" "job_id_ok i" "db_ok db"
  shows "Get s repository ctx i db =
    (case find_row i db of Some r \<Rightarrow> (job_of_row r, None) | None \<Rightarrow> (zero_Job, Some (Sentinel ErrNotFound)))"
  using assms find_row_ok [OF assms(4), of i]
  by (auto simp: Get_def query_get split: option.splits)

theorem Get_behaviour_witness:
  "Get sample_script sample_repository sample_ctx sample_id [sample_running] = (job_of_row sample_running, None)"
  using Get_behaviour [OF sample_healthy sample_usable newJobID_ok [OF sample_newJobID] sample_db_ok]
  by (simp add: find_row_def)

section \<open>Cancel and Redrive\<close>

text \<open>The row an administrative update matches.\<close>

definition in_states :: "string set \<Rightarrow> string \<Rightarrow> db \<Rightarrow> row option" where
  "in_states S i db = (case find_row i db of Some r \<Rightarrow> if c_state r \<in> S then Some r else None | None \<Rightarrow> None)"

lemma in_states_id: "in_states S i db = Some r \<Longrightarrow> c_id r = i"
  by (auto simp: in_states_def dest: find_row_Some split: option.splits if_splits)

lemma Cancel_run:
  assumes "healthy s" "usable repository ctx" "job_id_ok i" "db_ok db" "clock_sane (s_clock s)" "db_ok (s_later s db)"
  shows "Cancel s repository ctx i db =
    (case in_states {StatePending, StateRunning} i db of
       Some r \<Rightarrow> (set_row i (canceled_row (s_clock s) r) db, job_of_row (canceled_row (s_clock s) r), None)
     | None \<Rightarrow>
         (case find_row i (s_later s db) of
            None \<Rightarrow> (db, zero_Job, Some (Sentinel ErrNotFound))
          | Some r \<Rightarrow> if c_state r = StateCanceled then (db, job_of_row r, None)
                      else (db, zero_Job, Some (Sentinel ErrStateConflict))))"
proof -
  note q = cn.query_upd [of "(s_clock s, i)" db s 0, unfolded split_conv, OF assms(5,4) healthy_D(3) [OF assms(1)]]
  note g = query_get [OF assms(6) healthy_D(3) [OF assms(1)], of 1 i]
  note ctx = usable_D(1) [OF assms(2)]
  have guard: "cancelable i r \<longleftrightarrow> c_id r = i \<and> c_state r \<in> {StatePending, StateRunning}" for r
    by (auto simp: cancelable_def state_defs)
  show ?thesis
  proof (cases "in_states {StatePending, StateRunning} i db")
    case None
    then have "query_row s 0 (sql_update (cancelable i) (canceled_row (s_clock s))) db = (Inl (Sentinel pgx_ErrNoRows), db)"
      using q by (auto simp: in_states_def guard split: option.splits if_splits)
    with None g ctx assms(1-3) find_row_ok [OF assms(6), of i] show ?thesis
      by (simp add: Cancel_def transact_def cancelSQL_def split: option.splits)
  next
    case (Some r)
    then have r: "find_row i db = Some r" "cancelable i r" "row_ok r"
      using find_row_ok [OF assms(4)] by (auto simp: in_states_def guard split: option.splits if_splits)
    with cn.as_set_row [of db "(s_clock s, i)" r, unfolded split_conv, OF db_ok_D(1) [OF assms(4)] r(1)]
    show ?thesis
      using Some q ctx assms canceled_row_ok [OF r(3) assms(5)] by (simp add: Cancel_def transact_def cancelSQL_def)
  qed
qed

text \<open>
  C33. \<^verbatim>\<open>Cancel\<close> in a healthy environment, on every branch: a pending or running job
  becomes canceled, without lease, finished and updated at the database clock and otherwise
  as it was; no other row changes, and the job returned is the row stored. In every other
  case nothing changes, and the table as the second statement sees it decides: a job already
  canceled is returned as it is (so canceling twice is the same as once), any other is a
  state conflict, a missing one is not found.
\<close>

theorem Cancel_behaviour:
  assumes "healthy s" "usable repository ctx" "job_id_ok i" "db_ok db" "clock_sane (s_clock s)" "db_ok (s_later s db)"
  shows "Cancel s repository ctx i db =
    (case in_states {StatePending, StateRunning} i db of
       Some r \<Rightarrow>
         (let r' = r\<lparr>c_state := StateCanceled, c_lease_token := None, c_lease_owner := None, c_lease_until := None,
            c_finished_at := Some (s_clock s 0 i), c_updated_at := s_clock s 1 i\<rparr>
          in (set_row i r' db, job_of_row r', None))
     | None \<Rightarrow>
         (case find_row i (s_later s db) of
            None \<Rightarrow> (db, zero_Job, Some (Sentinel ErrNotFound))
          | Some r \<Rightarrow> if c_state r = StateCanceled then (db, job_of_row r, None)
                      else (db, zero_Job, Some (Sentinel ErrStateConflict))))"
proof (cases "in_states {StatePending, StateRunning} i db")
  case None
  then show ?thesis by (simp add: Cancel_run [OF assms])
next
  case (Some r)
  have "canceled_row (s_clock s) r = r\<lparr>c_state := StateCanceled, c_lease_token := None, c_lease_owner := None,
      c_lease_until := None, c_finished_at := Some (s_clock s 0 i), c_updated_at := s_clock s 1 i\<rparr>"
    using in_states_id [OF Some] by (simp only: canceled_row_def StateCanceled_def)
  with Some show ?thesis by (simp only: Cancel_run [OF assms] option.case Let_def)
qed

theorem Cancel_behaviour_witness:
  "\<exists>r job. Cancel sample_script sample_repository sample_ctx sample_id [sample_running] = ([r], job, None) \<and>
     c_state r = ''canceled'' \<and> c_lease_token r = None \<and> c_lease_until r = None \<and>
     c_finished_at r = Some 5000000 \<and> c_attempts r = 1 \<and> Job_State job = StateCanceled"
proof -
  have "c_state sample_running = StateRunning" "c_attempts sample_running = 1"
    by (simp_all add: sample_running_def state_defs)
  then show ?thesis
    using Cancel_behaviour [OF sample_healthy sample_usable newJobID_ok [OF sample_newJobID] sample_db_ok]
    by (simp add: in_states_def find_row_def set_row_def sample_clock_def Let_def) (simp add: StateCanceled_def)
qed

lemma Redrive_run:
  assumes "healthy s" "usable repository ctx" "job_id_ok i" "db_ok db" "clock_sane (s_clock s)" "db_ok (s_later s db)"
  shows "Redrive s repository ctx i db =
    (case in_states {StateDead} i db of
       Some r \<Rightarrow> (set_row i (redriven_row (s_clock s) r) db, job_of_row (redriven_row (s_clock s) r), None)
     | None \<Rightarrow>
         (case find_row i (s_later s db) of
            None \<Rightarrow> (db, zero_Job, Some (Sentinel ErrNotFound))
          | Some r \<Rightarrow> (db, zero_Job, Some (Sentinel ErrStateConflict))))"
proof -
  note q = rd.query_upd [of "(s_clock s, i)" db s 0, unfolded split_conv, OF assms(5,4) healthy_D(3) [OF assms(1)]]
  note g = query_get [OF assms(6) healthy_D(3) [OF assms(1)], of 1 i]
  note ctx = usable_D(1) [OF assms(2)]
  have guard: "redrivable i r \<longleftrightarrow> c_id r = i \<and> c_state r \<in> {StateDead}" for r
    by (auto simp: redrivable_def state_defs)
  show ?thesis
  proof (cases "in_states {StateDead} i db")
    case None
    then have "query_row s 0 (sql_update (redrivable i) (redriven_row (s_clock s))) db = (Inl (Sentinel pgx_ErrNoRows), db)"
      using q by (auto simp: in_states_def guard split: option.splits if_splits)
    with None g ctx assms(1-3) find_row_ok [OF assms(6), of i] show ?thesis
      by (simp add: Redrive_def transact_def redriveSQL_def split: option.splits)
  next
    case (Some r)
    then have r: "find_row i db = Some r" "redrivable i r" "row_ok r"
      using find_row_ok [OF assms(4)] by (auto simp: in_states_def guard split: option.splits if_splits)
    with rd.as_set_row [of db "(s_clock s, i)" r, unfolded split_conv, OF db_ok_D(1) [OF assms(4)] r(1)]
    show ?thesis
      using Some q ctx assms redriven_row_ok [OF r(3) assms(5)] by (simp add: Redrive_def transact_def redriveSQL_def)
  qed
qed

text \<open>
  C34. \<^verbatim>\<open>Redrive\<close> in a healthy environment, on every branch: a dead job becomes
  pending with no attempt spent, so with its whole budget, available and updated at the
  database clock, its lease, error and finish time cleared and every other column kept; no
  other row changes, and the job returned is the row stored. Otherwise nothing changes, and
  by the table as the second statement sees it the answer is a state conflict or, for a
  missing job, not found.
\<close>

theorem Redrive_behaviour:
  assumes "healthy s" "usable repository ctx" "job_id_ok i" "db_ok db" "clock_sane (s_clock s)" "db_ok (s_later s db)"
  shows "Redrive s repository ctx i db =
    (case in_states {StateDead} i db of
       Some r \<Rightarrow>
         (let r' = r\<lparr>c_state := StatePending, c_attempts := 0, c_available_at := s_clock s 0 i,
            c_lease_token := None, c_lease_owner := None, c_lease_until := None,
            c_last_error := [], c_finished_at := None, c_updated_at := s_clock s 1 i\<rparr>
          in (set_row i r' db, job_of_row r', None))
     | None \<Rightarrow>
         (case find_row i (s_later s db) of
            None \<Rightarrow> (db, zero_Job, Some (Sentinel ErrNotFound))
          | Some r \<Rightarrow> (db, zero_Job, Some (Sentinel ErrStateConflict))))"
proof (cases "in_states {StateDead} i db")
  case None
  then show ?thesis by (simp add: Redrive_run [OF assms])
next
  case (Some r)
  have "redriven_row (s_clock s) r = r\<lparr>c_state := StatePending, c_attempts := 0, c_available_at := s_clock s 0 i,
      c_lease_token := None, c_lease_owner := None, c_lease_until := None,
      c_last_error := [], c_finished_at := None, c_updated_at := s_clock s 1 i\<rparr>"
    using in_states_id [OF Some] by (simp only: redriven_row_def StatePending_def)
  with Some show ?thesis by (simp only: Redrive_run [OF assms] option.case Let_def)
qed

definition sample_dead :: row where
  "sample_dead = exhausted_row sample_clock sample_running"

lemma sample_dead_ok [simp]: "db_ok [sample_dead]"
proof -
  have "row_ok sample_dead"
    unfolding sample_dead_def by (rule exhausted_row_ok [OF sample_row_ok]) (simp_all, simp add: sample_running_def)
  then show ?thesis by (simp add: db_ok_def primary_key_def gotth_jobs_idempotency_def)
qed

theorem Redrive_behaviour_witness:
  "c_attempts sample_dead = 1 \<and>
   (\<exists>r job. Redrive sample_script sample_repository sample_ctx sample_id [sample_dead] = ([r], job, None) \<and>
     c_state r = ''pending'' \<and> c_attempts r = 0 \<and> c_available_at r = 5000000 \<and> c_last_error r = [] \<and>
     c_finished_at r = None \<and> Job_State job = StatePending \<and> Job_Attempts job = 0)"
proof -
  have d: "c_id sample_dead = sample_id" "c_state sample_dead = StateDead" "c_attempts sample_dead = 1"
    by (simp_all add: sample_dead_def exhausted_row_def state_defs) (simp add: sample_running_def)
  with Redrive_behaviour [OF sample_healthy sample_usable newJobID_ok [OF sample_newJobID] sample_dead_ok]
  show ?thesis by (simp add: in_states_def find_row_def set_row_def sample_clock_def Let_def) (simp add: StatePending_def)
qed

text \<open>Under every environment an administrative mutation keeps the table or applies its transition.\<close>

context keyed_update
begin

lemma body_cases:
  assumes "transact ctx s zero_Job (\<lambda>db.
      let (row, db1) = query_row s 0 (sql_update (guard a) (upd a)) db
      in case scanJob row of Inr job \<Rightarrow> (db1, job, None) | Inl err \<Rightarrow> miss err db1) db = (db', v, err)"
    "primary_key db" "\<And>e db1 db2 j e2. miss e db1 = (db2, j, e2) \<Longrightarrow> db2 = db1"
  obtains (kept) "db' = db" | (applied) r where "find_row (key a) db = Some r" "guard a r"
    "db' = set_row (key a) (upd a r) db" "err = None \<or> Is err ErrCommitOutcomeUnknown"
proof -
  obtain row db1 where q: "query_row s 0 (sql_update (guard a) (upd a)) db = (row, db1)" by fastforce
  have r: "db1 = db \<or> (\<exists>r. find_row (key a) db = Some r \<and> guard a r \<and> db1 = set_row (key a) (upd a r) db)"
  proof (cases row)
    case (Inr raw)
    then show ?thesis using query_upd_Inr [OF _ assms(2)] as_set_row [OF assms(2)] q by blast
  next
    case (Inl e)
    with q have "db1 = db \<or> filter (guard a) db = [] \<and> db1 = update_where (guard a) (upd a) db"
      by (auto simp: query_row_def run_stmt_def sql_update_def Let_def
          split: option.splits sum.splits list.splits if_splits)
    then show ?thesis by (auto simp: filter_empty_conv update_where_none)
  qed
  have body: "db'' = db1" if "(let (row, db1) = query_row s 0 (sql_update (guard a) (upd a)) db
      in case scanJob row of Inr job \<Rightarrow> (db1, job, None) | Inl err \<Rightarrow> miss err db1) = (db'', w, e)" for db'' w e
    using that assms(3) by (auto simp: q split: sum.splits)
  from assms(1) show ?thesis
  proof (cases rule: transact_cases)
    case committed
    then show ?thesis using body r that by blast
  next
    case unknown
    then show ?thesis using body r that by blast
  qed (rule that(1))
qed

end

lemma Cancel_cases:
  assumes "Cancel s repository ctx i db = (db', v, err)" "primary_key db"
  obtains (kept) "db' = db"
  | (applied) r where "find_row i db = Some r" "cancelable i r" "db' = set_row i (canceled_row (s_clock s) r) db"
      "err = None \<or> Is err ErrCommitOutcomeUnknown"
proof (cases "validateMutation repository ctx i")
  case None
  note run = assms(1) [unfolded Cancel_def None option.case cancelSQL_def]
  show ?thesis
    by (rule cn.body_cases [of ctx s "(s_clock s, i)", unfolded split_conv, OF run assms(2)])
      (auto intro: that split: if_splits sum.splits)
next
  case (Some e)
  with assms(1) have "(db, zero_Job, Some e) = (db', v, err)" by (simp only: Cancel_def option.case)
  then show ?thesis by (intro that(1)) auto
qed

lemma Redrive_cases:
  assumes "Redrive s repository ctx i db = (db', v, err)" "primary_key db"
  obtains (kept) "db' = db"
  | (applied) r where "find_row i db = Some r" "redrivable i r" "db' = set_row i (redriven_row (s_clock s) r) db"
      "err = None \<or> Is err ErrCommitOutcomeUnknown"
proof (cases "validateMutation repository ctx i")
  case None
  note run = assms(1) [unfolded Redrive_def None option.case redriveSQL_def]
  show ?thesis
    by (rule rd.body_cases [of ctx s "(s_clock s, i)", unfolded split_conv, OF run assms(2)])
      (auto intro: that split: if_splits sum.splits)
next
  case (Some e)
  with assms(1) have "(db, zero_Job, Some e) = (db', v, err)" by (simp only: Redrive_def option.case)
  then show ?thesis by (intro that(1)) auto
qed

section \<open>Counts\<close>

lemma count_states:
  assumes "\<And>r. r \<in> set rows \<Longrightarrow> c_state r \<in> set known_states"
  shows "length (filter (\<lambda>r. c_state r = ''pending'') rows) + length (filter (\<lambda>r. c_state r = ''running'') rows) +
    length (filter (\<lambda>r. c_state r = ''succeeded'') rows) + length (filter (\<lambda>r. c_state r = ''dead'') rows) +
    length (filter (\<lambda>r. c_state r = ''canceled'') rows) = length rows"
  using assms by (induction rows) (auto simp: known_states_def state_defs)

definition in_state :: "string \<Rightarrow> string \<Rightarrow> db \<Rightarrow> row list" where
  "in_state queue state db = filter (\<lambda>r. c_queue r = queue \<and> c_state r = state) db"

text \<open>
  C39. \<^verbatim>\<open>Counts\<close> on a sound table of fewer than 2^63 rows is exact: each counter is the
  number of jobs of the queue in that state, their sum, computed in int64, is the number of
  jobs of the queue, and so the corruption check never fires.
\<close>

theorem Counts_exact:
  assumes "healthy s" "usable repository ctx" "name_ok 128 queue" "db_ok db" "int (length db) < 2 ^ 63"
  shows "Counts_op s repository ctx queue db =
    (\<lparr>Count_Pending = int (length (in_state queue StatePending db)),
      Count_Running = int (length (in_state queue StateRunning db)),
      Count_Succeeded = int (length (in_state queue StateSucceeded db)),
      Count_Dead = int (length (in_state queue StateDead db)),
      Count_Canceled = int (length (in_state queue StateCanceled db))\<rparr>, None)"
proof -
  let ?rows = "filter (\<lambda>r. c_queue r = queue) db"
  let ?n = "\<lambda>state. int (length (filter (\<lambda>r. c_state r = state) ?rows))"
  have "length ?rows \<le> length db" by simp
  then have bound: "int (length ?rows) < 2 ^ 63" using assms(5) by linarith
  have sum: "?n ''pending'' + ?n ''running'' + ?n ''succeeded'' + ?n ''dead'' + ?n ''canceled'' = int (length ?rows)"
    using count_states [of ?rows] row_ok_scalars(17) db_ok_D(3) [OF assms(4)] by fastforce
  have nn: "0 \<le> ?n state" for state by simp
  note nn5 = nn [of "''pending''"] nn [of "''running''"] nn [of "''succeeded''"] nn [of "''dead''"] nn [of "''canceled''"]
  have "int64 (int64 (int64 (int64 (?n ''pending'' + ?n ''running'') + ?n ''succeeded'') + ?n ''dead'') + ?n ''canceled'') =
      int (length ?rows)"
  proof -
    have "int64 (?n ''pending'' + ?n ''running'') = ?n ''pending'' + ?n ''running''"
      by (rule int64_id) (use sum nn5 bound in linarith)+
    moreover have "int64 (?n ''pending'' + ?n ''running'' + ?n ''succeeded'') = ?n ''pending'' + ?n ''running'' + ?n ''succeeded''"
      by (rule int64_id) (use sum nn5 bound in linarith)+
    moreover have "int64 (?n ''pending'' + ?n ''running'' + ?n ''succeeded'' + ?n ''dead'') =
        ?n ''pending'' + ?n ''running'' + ?n ''succeeded'' + ?n ''dead''"
      by (rule int64_id) (use sum nn5 bound in linarith)+
    moreover have "int64 (int (length ?rows)) = int (length ?rows)"
      by (rule int64_id) (use bound in linarith)+
    ultimately show ?thesis using sum by presburger
  qed
  then show ?thesis
    using assms(1-3) by (simp add: Counts_op_def countsSQL_def Let_def in_state_def state_defs)
qed

theorem Counts_exact_witness:
  "Counts_op sample_script sample_repository sample_ctx ''q'' [sample_running] =
     (\<lparr>Count_Pending = 0, Count_Running = 1, Count_Succeeded = 0, Count_Dead = 0, Count_Canceled = 0\<rparr>, None)"
proof -
  have "int (length [sample_running]) < 2 ^ 63" by simp
  from Counts_exact [OF sample_healthy sample_usable sample_names(1) sample_db_ok this]
  show ?thesis by (simp add: in_state_def sample_running_def state_defs)
qed

section \<open>Pages of dead jobs\<close>

definition dead_rows :: "string \<Rightarrow> db \<Rightarrow> row list" where
  "dead_rows queue db = sort_key finish_key (filter (\<lambda>r. c_queue r = queue \<and> c_state r = ''dead'') db)"

lemma dead_rows_D:
  assumes "r \<in> set (dead_rows queue db)" "db_ok db"
  shows "r \<in> set db" "row_ok r" "c_state r = StateDead" "\<exists>f. c_finished_at r = Some f \<and> pg_instant f"
proof -
  show m: "r \<in> set db" and st: "c_state r = StateDead" using assms(1) by (auto simp: dead_rows_def state_defs)
  show ok: "row_ok r" using db_ok_D(3) [OF assms(2) m] .
  show "\<exists>f. c_finished_at r = Some f \<and> pg_instant f"
    using row_ok_finished [OF ok] row_ok_scalars(16) [OF ok] st by auto
qed

lemma dead_rows_sorted:
  assumes "db_ok db"
  shows "sorted_wrt (<) (map finish_key (dead_rows queue db))"
proof -
  have "inj_on finish_key (set db)"
    using primary_key_eq [OF db_ok_D(1) [OF assms]] by (auto simp: inj_on_def finish_key_def)
  moreover have "distinct db" using db_ok_D(1) [OF assms] by (simp add: primary_key_def distinct_map)
  ultimately have "distinct (map finish_key (dead_rows queue db))"
    by (auto simp: dead_rows_def distinct_map intro: inj_on_subset)
  moreover have "sorted (map finish_key (dead_rows queue db))" by (simp add: dead_rows_def)
  ultimately show ?thesis by (simp add: strict_sorted_iff)
qed

text \<open>In a strictly sorted list the elements above the k-th are the rest of the list.\<close>

lemma filter_above_nth:
  fixes key :: "'a \<Rightarrow> 'b::linorder"
  assumes "sorted_wrt (<) (map key xs)" "k < length xs"
  shows "filter (\<lambda>x. key (xs ! k) < key x) xs = drop (Suc k) xs"
proof -
  have "xs = take k xs @ xs ! k # drop (Suc k) xs" using assms(2) by (rule id_take_nth_drop)
  moreover from this assms(1) have s: "sorted_wrt (<) (map key (take k xs @ xs ! k # drop (Suc k) xs))" by simp
  then have "filter (\<lambda>x. key (xs ! k) < key x) (take k xs) = []"
    by (fastforce simp: filter_empty_conv sorted_wrt_append)
  moreover have "filter (\<lambda>x. key (xs ! k) < key x) (drop (Suc k) xs) = drop (Suc k) xs"
    using s by (auto simp: filter_id_conv sorted_wrt_append)
  ultimately show ?thesis by (metis append_Nil filter.simps(2) filter_append order.irrefl)
qed

lemma scan_dead_ok:
  "(\<And>r. r \<in> set rows \<Longrightarrow> row_ok r \<and> c_state r = StateDead) \<Longrightarrow>
   scan_dead rows jobs = Inr (jobs @ map job_of_row rows)"
  by (induction rows arbitrary: jobs) auto

definition cursor_at :: "Job \<Rightarrow> DeadCursor" where
  "cursor_at job = \<lparr>Cursor_FinishedAt = Job_FinishedAt job, Cursor_ID = Job_ID job\<rparr>"

definition page_cursor :: "Job list \<Rightarrow> nat \<Rightarrow> DeadCursor option" where
  "page_cursor jobs k = (case k of 0 \<Rightarrow> None | Suc j \<Rightarrow> Some (cursor_at (jobs ! j)))"

lemma listDeadSQL_page:
  assumes "db_ok db" "k \<le> length (dead_rows queue db)"
    "cursor_arguments (page_cursor (map job_of_row (dead_rows queue db)) k) = Inr (t, i)"
  shows "listDeadSQL queue t i n db = Inr (take n (drop k (dead_rows queue db)), db)"
proof (cases k)
  case 0
  with assms(3) show ?thesis
    by (simp add: page_cursor_def cursor_arguments_def listDeadSQL_def after_cursor_def top_by_def dead_rows_def)
next
  case (Suc j)
  let ?D = "dead_rows queue db"
  have j: "j < length ?D" using Suc assms(2) by simp
  have r: "?D ! j \<in> set ?D" using j by simp
  obtain f where f: "c_finished_at (?D ! j) = Some f" "pg_instant f" using dead_rows_D(4) [OF r assms(1)] by blast
  have arg: "t = Some f" "i = c_id (?D ! j)"
    using assms(3) Suc j f by (auto simp: page_cursor_def cursor_arguments_def cursor_at_def split: if_splits)
  have "filter (\<lambda>r. c_queue r = queue \<and> c_state r = ''dead'' \<and> after_cursor t i r) db =
      filter (after_cursor t i) (filter (\<lambda>r. c_queue r = queue \<and> c_state r = ''dead'') db)"
    by (simp add: conj_commute conj_left_commute)
  then have "sort_key finish_key (filter (\<lambda>r. c_queue r = queue \<and> c_state r = ''dead'' \<and> after_cursor t i r) db) =
      filter (after_cursor t i) ?D"
    by (simp add: dead_rows_def filter_sort)
  also have "\<dots> = filter (\<lambda>r. finish_key (?D ! j) < finish_key r) ?D"
  proof (rule filter_cong [OF refl])
    fix r assume "r \<in> set ?D"
    from dead_rows_D(4) [OF this assms(1)] show "after_cursor t i r = (finish_key (?D ! j) < finish_key r)"
      using f arg by (auto simp: after_cursor_def finish_key_def)
  qed
  also have "\<dots> = drop k ?D" using filter_above_nth [OF dead_rows_sorted [OF assms(1)] j] Suc by simp
  finally show ?thesis by (simp add: listDeadSQL_def top_by_def)
qed

text \<open>
  C30. Keyset pagination is exact. On a sound table the dead jobs of a queue form one
  sequence ordered by finish time and id; \<^verbatim>\<open>ListDead\<close> without a cursor returns its first
  \<open>limit\<close> jobs, and with the cursor of the k-th job of the sequence it returns exactly the
  next \<open>limit\<close> jobs: following cursors lists every dead job once, none skipped.
\<close>

theorem ListDead_pages:
  assumes "healthy s" "usable repository ctx" "name_ok 128 queue" "db_ok db" "1 \<le> limit" "limit \<le> 100"
    "jobs = map job_of_row (dead_rows queue db)" "k \<le> length jobs"
  shows "ListDead s repository ctx queue (page_cursor jobs k) limit db =
    (Some (take (nat limit) (drop k jobs)), None)"
proof -
  let ?D = "dead_rows queue db"
  have "\<exists>t i. cursor_arguments (page_cursor jobs k) = Inr (t, i)"
  proof (cases k)
    case (Suc j)
    then have j: "?D ! j \<in> set ?D" "j < length ?D" using assms(7,8) by auto
    from dead_rows_D(4) [OF j(1) assms(4)] row_ok_scalars(1) [OF dead_rows_D(2) [OF j(1) assms(4)]]
    show ?thesis using Suc j(2) assms(7) by (auto simp: page_cursor_def cursor_arguments_def cursor_at_def)
  qed (simp add: page_cursor_def cursor_arguments_def)
  then obtain t i where c: "cursor_arguments (page_cursor jobs k) = Inr (t, i)" by blast
  have l: "listDeadSQL queue t i (nat limit) db = Inr (take (nat limit) (drop k ?D), db)"
    using listDeadSQL_page [OF assms(4)] c assms(7,8) by simp
  have "row_ok r \<and> c_state r = StateDead" if "r \<in> set (take (nat limit) (drop k ?D))" for r
    using that dead_rows_D(2,3) [OF _ assms(4)] by (meson in_set_dropD in_set_takeD)
  then have "scan_dead (take (nat limit) (drop k ?D)) [] = Inr (take (nat limit) (drop k jobs))"
    using scan_dead_ok [of "take (nat limit) (drop k ?D)" "[]"] assms(7) by (simp add: take_map drop_map)
  with l c assms(1-3,5,6) show ?thesis
    by (simp add: ListDead_def run_stmt_def MaxDeadPage_def)
qed

theorem ListDead_pages_witness:
  "ListDead sample_script sample_repository sample_ctx ''q'' None 10 [sample_dead] =
     (Some [job_of_row sample_dead], None) \<and>
   ListDead sample_script sample_repository sample_ctx ''q'' (Some (cursor_at (job_of_row sample_dead))) 10 [sample_dead] =
     (Some [], None)"
proof -
  have d: "[job_of_row sample_dead] = map job_of_row (dead_rows ''q'' [sample_dead])"
    by (simp add: dead_rows_def sample_dead_def exhausted_row_def sample_running_def)
  note page = ListDead_pages [OF sample_healthy sample_usable sample_names(1) sample_dead_ok, of 10, OF _ _ d]
  from page [of 0] page [of 1] show ?thesis by (simp add: page_cursor_def)
qed

end
