(* ===== verification/Machine.thy ===== *)
theory Machine
  imports Enqueue Operations
begin

text \<open>
  The queue as a machine: every public mutation of the library, by any caller, in any
  environment, as one step on the table. \<open>transition\<close> lists what a step may do to a stored
  row; the locale \<open>table_operation\<close> is the contract of one operation and is interpreted on
  all eight. From it follow the table invariant of every reachable table, the job life
  cycle of \<^verbatim>\<open>docs/architecture.md\<close> as a refinement, and the fencing of lost leases over
  whole histories.
\<close>

section \<open>Transitions of a stored row\<close>

text \<open>
  The first argument says what the call brings along: the lease token it drew, if it is a
  claim, and the id it redrives, if it is a redrive.
\<close>

type_synonym authority = "string option \<times> string option"

inductive transition :: "authority \<Rightarrow> row \<Rightarrow> row \<Rightarrow> bool" for au where
  stay: "transition au r r"
| give: "c_state r = StatePending \<or> c_state r = StateRunning \<Longrightarrow> c_attempts r < c_max_attempts r \<Longrightarrow>
    fst au = Some token \<Longrightarrow> transition au r (claimed_row clk token worker us r)"
| exhaust: "c_state r = StateRunning \<Longrightarrow> c_attempts r \<ge> c_max_attempts r \<Longrightarrow>
    transition au r (exhausted_row clk r)"
| beat: "c_state r = StateRunning \<Longrightarrow> transition au r (heartbeat_row clk us r)"
| complete: "c_state r = StateRunning \<Longrightarrow> transition au r (completed_row clk r)"
| fail: "c_state r = StateRunning \<Longrightarrow> transition au r (failed_row clk message permanent us r)"
| cancel: "c_state r = StatePending \<or> c_state r = StateRunning \<Longrightarrow> transition au r (canceled_row clk r)"
| redrive: "c_state r = StateDead \<Longrightarrow> snd au = Some (c_id r) \<Longrightarrow> transition au r (redriven_row clk r)"

definition newborn :: "row \<Rightarrow> bool" where
  "newborn r \<longleftrightarrow> c_state r = StatePending \<and> c_attempts r = 0 \<and> c_lease_token r = None"

lemma transition_keeps_identity: "transition au r r' \<Longrightarrow> identity r' = identity r"
  by (induction rule: transition.induct) simp_all

text \<open>Succeeded and canceled are final: the row is never written again.\<close>

lemma transition_final:
  "transition au r r' \<Longrightarrow> c_state r = StateSucceeded \<or> c_state r = StateCanceled \<Longrightarrow> r' = r"
  by (induction rule: transition.induct) (auto simp: state_defs)

text \<open>Dead is final but for a redrive of the job.\<close>

lemma transition_dead:
  "transition au r r' \<Longrightarrow> c_state r = StateDead \<Longrightarrow> snd au \<noteq> Some (c_id r) \<Longrightarrow> r' = r"
  by (induction rule: transition.induct) (auto simp: state_defs)

text \<open>A token a row does not hold can only come from a draw.\<close>

lemma transition_token:
  "transition au r r' \<Longrightarrow> c_lease_token r \<noteq> Some t \<Longrightarrow> fst au \<noteq> Some t \<Longrightarrow> c_lease_token r' \<noteq> Some t"
  by (induction rule: transition.induct)
    (auto simp: claimed_row_def exhausted_row_def heartbeat_row_def completed_row_def failed_row_def
      canceled_row_def redriven_row_def Let_def)

section \<open>The contract of an operation\<close>

text \<open>
  A lawful change: the new table is sound, every stored row is still there after a
  transition, and every other row is a newborn job.
\<close>

definition lawful :: "authority \<Rightarrow> db \<Rightarrow> db \<Rightarrow> bool" where
  "lawful au db db' \<longleftrightarrow> db_ok db' \<and>
     (\<forall>i r. find_row i db = Some r \<longrightarrow> (\<exists>r'. find_row i db' = Some r' \<and> transition au r r')) \<and>
     (\<forall>i r'. find_row i db = None \<longrightarrow> find_row i db' = Some r' \<longrightarrow> newborn r')"

lemma lawful_refl: "db_ok db \<Longrightarrow> lawful au db db"
  using transition.stay by (auto simp: lawful_def)

lemma lawful_set_row:
  assumes "db_ok db" "find_row k db = Some r" "row_ok r'" "transition au r r'"
  shows "lawful au db (set_row k r' db)"
proof -
  have id: "identity r' = identity r" using transition_keeps_identity [OF assms(4)] .
  have k: "c_id r = k" "c_id r' = k" using find_row_Some [OF assms(2)] identity_D(1) [OF id] by auto
  have "identity (if c_id x = k then r' else x) = identity x" if "x \<in> set db" for x
    using that id k primary_key_eq [OF db_ok_D(1) [OF assms(1)], of x r] find_row_Some [OF assms(2)] by auto
  then have "map identity (set_row k r' db) = map identity db" by (simp add: set_row_def)
  moreover have "row_ok x" if "x \<in> set (set_row k r' db)" for x
    using set_row_members [OF that] assms(3) db_ok_D(3) [OF assms(1)] by blast
  ultimately have "db_ok (set_row k r' db)" using db_ok_update [OF assms(1)] by blast
  with assms(2,4) find_set_row [OF assms(2) k(2)] transition.stay show ?thesis
    by (simp add: lawful_def)
qed

locale table_operation =
  fixes op :: "'a \<Rightarrow> db \<Rightarrow> db \<times> 'b \<times> error"
    and admitted :: "'a \<Rightarrow> bool"
    and brings :: "'a \<Rightarrow> authority"
  assumes lawful_op: "admitted a \<Longrightarrow> db_ok db \<Longrightarrow> op a db = (db', v, err) \<Longrightarrow> lawful (brings a) db db'"
begin

lemma after_lawful: "admitted a \<Longrightarrow> db_ok db \<Longrightarrow> lawful (brings a) db (fst (op a db))"
  using lawful_op by (metis prod.collapse)

lemma after_ok: "admitted a \<Longrightarrow> db_ok db \<Longrightarrow> db_ok (fst (op a db))"
  using after_lawful by (auto simp: lawful_def)

text \<open>No operation deletes a job or changes what its request fixed.\<close>

lemma after_identity:
  assumes "admitted a" "db_ok db" "find_row i db = Some r"
  obtains r' where "find_row i (fst (op a db)) = Some r'" "identity r' = identity r"
  using after_lawful [OF assms(1,2), unfolded lawful_def] assms(3) transition_keeps_identity by blast

end

section \<open>Every operation meets the contract\<close>

lemma live_row_D:
  assumes "live_row now lease db = Some r"
  shows "find_row (Lease_JobID lease) db = Some r" "c_state r = StateRunning" "c_state r = ''running''"
  using assms by (auto simp: live_row_Some lease_live_def state_defs)

lemma Complete_lawful:
  assumes "Complete s repository ctx lease db = (db', v, err)" "db_ok db" "clock_sane (s_clock s)"
  shows "lawful au db db'"
  using assms(1) db_ok_D(1) [OF assms(2)]
proof (cases rule: Complete_cases)
  case (applied r)
  note r = live_row_D [OF applied(1)]
  have ok: "row_ok r" using find_row_ok [OF assms(2) r(1)] by simp
  show ?thesis unfolding applied(2)
    by (rule lawful_set_row [OF assms(2) r(1) completed_row_ok [OF ok r(3) assms(3)] transition.complete [OF r(2)]])
qed (simp add: lawful_refl assms(2))

lemma Fail_lawful:
  assumes "Fail s repository ctx lease failure db = (db', v, err)" "db_ok db" "clock_sane (s_clock s)"
  shows "lawful au db db'"
  using assms(1) db_ok_D(1) [OF assms(2)]
proof (cases rule: Fail_cases)
  case (applied r)
  note r = live_row_D [OF applied(2)]
  have "failure_admitted (s_clock s) (Failure_Message failure) (Microseconds (Failure_RetryAfter failure))"
    by (rule failure_admitted_valid [OF applied(1) assms(3)])
  then have "row_ok (failed_row (s_clock s) (Failure_Message failure) (Failure_Permanent failure)
      (Microseconds (Failure_RetryAfter failure)) r)"
    using find_row_ok [OF assms(2) r(1)] r(3) by (intro failed_row_ok) (simp_all add: failure_admitted_def)
  from lawful_set_row [OF assms(2) r(1) this transition.fail [OF r(2)]] show ?thesis unfolding applied(3) .
qed (simp add: lawful_refl assms(2))

lemma Heartbeat_lawful:
  assumes "Heartbeat s repository ctx lease d db = (db', v, err)" "db_ok db" "clock_sane (s_clock s)"
  shows "lawful au db db'"
  using assms(1) db_ok_D(1) [OF assms(2)]
proof (cases rule: Heartbeat_cases)
  case (applied r)
  note r = live_row_D [OF applied(3)]
  have "row_ok (heartbeat_row (s_clock s) (Microseconds d) r)"
    using find_row_ok [OF assms(2) r(1)] r(3) assms(3) Microseconds_lease [of d] applied(1,2)
    by (intro heartbeat_row_ok) (simp_all add: go_defs)
  from lawful_set_row [OF assms(2) r(1) this transition.beat [OF r(2)]] show ?thesis unfolding applied(4) .
qed (simp add: lawful_refl assms(2))

lemma Cancel_lawful:
  assumes "Cancel s repository ctx i db = (db', v, err)" "db_ok db" "clock_sane (s_clock s)"
  shows "lawful au db db'"
  using assms(1) db_ok_D(1) [OF assms(2)]
proof (cases rule: Cancel_cases)
  case (applied r)
  have "c_state r = StatePending \<or> c_state r = StateRunning"
    using applied(2) by (auto simp: cancelable_def state_defs)
  from lawful_set_row [OF assms(2) applied(1) canceled_row_ok [OF _ assms(3)] transition.cancel [OF this]]
  show ?thesis unfolding applied(3) using find_row_ok [OF assms(2) applied(1)] by blast
qed (simp add: lawful_refl assms(2))

lemma Redrive_lawful:
  assumes "Redrive s repository ctx i db = (db', v, err)" "db_ok db" "clock_sane (s_clock s)"
  shows "lawful (t, Some i) db db'"
  using assms(1) db_ok_D(1) [OF assms(2)]
proof (cases rule: Redrive_cases)
  case (applied r)
  have r: "c_state r = StateDead" "snd (t, Some i) = Some (c_id r)"
    using applied(2) by (auto simp: redrivable_def state_defs)
  from lawful_set_row [OF assms(2) applied(1) redriven_row_ok [OF _ assms(3)] transition.redrive [OF r]]
  show ?thesis unfolding applied(3) using find_row_ok [OF assms(2) applied(1)] by blast
qed (simp add: lawful_refl assms(2))

definition drawn_token :: "script \<Rightarrow> string option" where
  "drawn_token s = (case newLeaseToken (s_entropy s) of Inl _ \<Rightarrow> None | Inr t \<Rightarrow> Some t)"

lemma Claim_lawful:
  assumes "Claim s repository ctx request db = (db', v, err)" "db_ok db" "clock_sane (s_clock s)"
  shows "lawful (drawn_token s, i) db db'"
proof -
  have "\<exists>r'. find_row k db' = Some r' \<and> transition (drawn_token s, i) r r'"
    if f: "find_row k db = Some r" for k r
    using assms(1) db_ok_D(1) [OF assms(2)] f
  proof (cases rule: Claim_row)
    case same
    then show ?thesis using transition.stay by blast
  next
    case exhausted
    then show ?thesis by (auto simp: exhausted_match_def state_defs intro!: transition.exhaust)
  next
    case (given token)
    have "c_attempts r < c_max_attempts r" using eligible_budget [OF _ given(3)] find_row_ok [OF assms(2) f] by blast
    with given show ?thesis by (auto simp: claim_eligible_def state_defs drawn_token_def intro!: transition.give)
  qed
  moreover have "find_row k db' = None" if "find_row k db = None" for k
    using assms(1) by (cases rule: Claim_cases) (use that find_claim_table [OF db_ok_D(1) [OF assms(2)]] in auto)
  ultimately show ?thesis using Claim_db_ok [OF assms] by (simp add: lawful_def)
qed

lemma lawful_append:
  assumes "db_ok db" "db_ok (db @ [r])" "newborn r"
  shows "lawful au db (db @ [r])"
  using assms transition.stay by (auto simp: lawful_def find_row_append split: option.splits if_splits)

lemma enqueuePrepared_lawful:
  assumes "enqueuePrepared sha256 s n (cloneEnqueue request) db = (db', v, err)"
    "enqueue_admitted sha256 s request" "db_ok db"
  shows "lawful au db db'"
  using assms(1,2)
proof (cases rule: enqueuePrepared_cases)
  case (inserted i)
  have "newborn (request_row sha256 (s_clock s) i (cloneEnqueue request))"
    by (simp add: newborn_def request_row_def)
  with enqueuePrepared_db_ok [OF assms] inserted(5) show ?thesis by (simp add: lawful_append assms(3))
qed (simp add: lawful_refl assms(3))

lemma Enqueue_lawful:
  assumes "Enqueue sha256 s repository ctx request db = (db', v, err)" "db_ok db"
    "time_ok (Enqueue_AvailableAt request)" "clock_sane (s_clock s)" "sha256_size sha256"
  shows "lawful au db db'"
  using assms(1)
proof (cases rule: Enqueue_cases)
  case 2
  then have adm: "enqueue_admitted sha256 s request" using assms(3-5) by (simp add: enqueue_admitted_def)
  show ?thesis
    by (rule transact_invariant [OF 2(2), of "lawful au db"])
      (use lawful_refl assms(2) enqueuePrepared_lawful [OF _ adm] in blast)+
qed (simp add: lawful_refl assms(2))

lemma EnqueueTx_lawful:
  assumes "EnqueueTx sha256 s repository ctx tx request db = (db', v, err)" "db_ok db"
    "time_ok (Enqueue_AvailableAt request)" "clock_sane (s_clock s)" "sha256_size sha256"
  shows "lawful au db db'"
proof -
  consider "db' = db" | "validateEnqueue request = None"
    "enqueuePrepared sha256 s 1 (cloneEnqueue request) db = (db', v, err)"
    using assms(1) by (auto simp: EnqueueTx_def split: if_splits option.splits)
  then show ?thesis
    by cases (use assms(2-5) lawful_refl enqueuePrepared_lawful in \<open>auto simp: enqueue_admitted_def\<close>)
qed

interpretation co: table_operation
  "\<lambda>(s, repository, ctx, lease). Complete s repository ctx lease"
  "\<lambda>(s, repository, ctx, lease). clock_sane (s_clock s)" "\<lambda>_. (None, None)"
  by unfold_locales (auto intro: Complete_lawful)

interpretation fa: table_operation
  "\<lambda>(s, repository, ctx, lease, failure). Fail s repository ctx lease failure"
  "\<lambda>(s, repository, ctx, lease, failure). clock_sane (s_clock s)" "\<lambda>_. (None, None)"
  by unfold_locales (auto intro: Fail_lawful)

interpretation he: table_operation
  "\<lambda>(s, repository, ctx, lease, d). Heartbeat s repository ctx lease d"
  "\<lambda>(s, repository, ctx, lease, d). clock_sane (s_clock s)" "\<lambda>_. (None, None)"
  by unfold_locales (auto intro: Heartbeat_lawful)

interpretation ca: table_operation
  "\<lambda>(s, repository, ctx, i). Cancel s repository ctx i"
  "\<lambda>(s, repository, ctx, i). clock_sane (s_clock s)" "\<lambda>_. (None, None)"
  by unfold_locales (auto intro: Cancel_lawful)

interpretation re: table_operation
  "\<lambda>(s, repository, ctx, i). Redrive s repository ctx i"
  "\<lambda>(s, repository, ctx, i). clock_sane (s_clock s)" "\<lambda>(s, repository, ctx, i). (None, Some i)"
  by unfold_locales (auto intro: Redrive_lawful)

interpretation cl: table_operation
  "\<lambda>(s, repository, ctx, request). Claim s repository ctx request"
  "\<lambda>(s, repository, ctx, request). clock_sane (s_clock s)" "\<lambda>(s, repository, ctx, request). (drawn_token s, None)"
  by unfold_locales (auto intro: Claim_lawful)

definition enqueue_sane :: "(bytes \<Rightarrow> bytes) \<Rightarrow> script \<Rightarrow> EnqueueRequest \<Rightarrow> bool" where
  "enqueue_sane sha256 s request \<longleftrightarrow>
     sha256_size sha256 \<and> clock_sane (s_clock s) \<and> time_ok (Enqueue_AvailableAt request)"

interpretation en: table_operation
  "\<lambda>(sha256, s, repository, ctx, request). Enqueue sha256 s repository ctx request"
  "\<lambda>(sha256, s, repository, ctx, request). enqueue_sane sha256 s request" "\<lambda>_. (None, None)"
  by unfold_locales (auto simp: enqueue_sane_def intro: Enqueue_lawful)

interpretation et: table_operation
  "\<lambda>(sha256, s, repository, ctx, tx, request). EnqueueTx sha256 s repository ctx tx request"
  "\<lambda>(sha256, s, repository, ctx, tx, request). enqueue_sane sha256 s request" "\<lambda>_. (None, None)"
  by unfold_locales (auto simp: enqueue_sane_def intro: EnqueueTx_lawful)

section \<open>Histories\<close>

text \<open>
  One call of the public API. \<^verbatim>\<open>EnqueueTx\<close> carries the caller's decision to commit its
  own transaction or not.
\<close>

datatype call =
  Enqueue_call EnqueueRequest
| EnqueueTx_call go_any EnqueueRequest bool
| Claim_call ClaimRequest
| Heartbeat_call Lease duration
| Complete_call Lease
| Fail_call Lease Failure
| Cancel_call string
| Redrive_call string

record event =
  ev_script :: script
  ev_repository :: repository
  ev_ctx :: ctx
  ev_call :: call

definition run_event :: "(bytes \<Rightarrow> bytes) \<Rightarrow> event \<Rightarrow> db \<Rightarrow> db" where
  "run_event sha256 e db =
     (let s = ev_script e; repository = ev_repository e; ctx = ev_ctx e
      in case ev_call e of
        Enqueue_call request \<Rightarrow> fst (Enqueue sha256 s repository ctx request db)
      | EnqueueTx_call tx request commit \<Rightarrow>
          if commit then fst (EnqueueTx sha256 s repository ctx tx request db) else db
      | Claim_call request \<Rightarrow> fst (Claim s repository ctx request db)
      | Heartbeat_call lease d \<Rightarrow> fst (Heartbeat s repository ctx lease d db)
      | Complete_call lease \<Rightarrow> fst (Complete s repository ctx lease db)
      | Fail_call lease failure \<Rightarrow> fst (Fail s repository ctx lease failure db)
      | Cancel_call i \<Rightarrow> fst (Cancel s repository ctx i db)
      | Redrive_call i \<Rightarrow> fst (Redrive s repository ctx i db))"

definition event_ok :: "event \<Rightarrow> bool" where
  "event_ok e \<longleftrightarrow> clock_sane (s_clock (ev_script e)) \<and>
     (case ev_call e of
        Enqueue_call request \<Rightarrow> time_ok (Enqueue_AvailableAt request)
      | EnqueueTx_call tx request commit \<Rightarrow> time_ok (Enqueue_AvailableAt request)
      | _ \<Rightarrow> True)"

definition event_brings :: "event \<Rightarrow> authority" where
  "event_brings e =
     (case ev_call e of
        Claim_call _ \<Rightarrow> (drawn_token (ev_script e), None)
      | Redrive_call i \<Rightarrow> (None, Some i)
      | _ \<Rightarrow> (None, None))"

lemma run_event_lawful:
  assumes "sha256_size sha256" "event_ok e" "db_ok db"
  shows "lawful (event_brings e) db (run_event sha256 e db)"
proof -
  let ?s = "ev_script e" and ?p = "ev_repository e" and ?c = "ev_ctx e"
  have clk: "clock_sane (s_clock ?s)" using assms(2) by (simp add: event_ok_def)
  show ?thesis
  proof (cases "ev_call e")
    case (Enqueue_call request)
    then show ?thesis
      using en.after_lawful [of "(sha256, ?s, ?p, ?c, request)" db] assms
      by (simp add: run_event_def event_brings_def event_ok_def enqueue_sane_def)
  next
    case (EnqueueTx_call tx request commit)
    then show ?thesis
      using et.after_lawful [of "(sha256, ?s, ?p, ?c, tx, request)" db] assms lawful_refl
      by (simp add: run_event_def event_brings_def event_ok_def enqueue_sane_def)
  next
    case (Claim_call request)
    then show ?thesis
      using cl.after_lawful [of "(?s, ?p, ?c, request)" db] clk assms(3) by (simp add: run_event_def event_brings_def)
  next
    case (Heartbeat_call lease d)
    then show ?thesis
      using he.after_lawful [of "(?s, ?p, ?c, lease, d)" db] clk assms(3) by (simp add: run_event_def event_brings_def)
  next
    case (Complete_call lease)
    then show ?thesis
      using co.after_lawful [of "(?s, ?p, ?c, lease)" db] clk assms(3) by (simp add: run_event_def event_brings_def)
  next
    case (Fail_call lease failure)
    then show ?thesis
      using fa.after_lawful [of "(?s, ?p, ?c, lease, failure)" db] clk assms(3) by (simp add: run_event_def event_brings_def)
  next
    case (Cancel_call i)
    then show ?thesis
      using ca.after_lawful [of "(?s, ?p, ?c, i)" db] clk assms(3) by (simp add: run_event_def event_brings_def)
  next
    case (Redrive_call i)
    then show ?thesis
      using re.after_lawful [of "(?s, ?p, ?c, i)" db] clk assms(3) by (simp add: run_event_def event_brings_def)
  qed
qed

inductive reachable :: "(bytes \<Rightarrow> bytes) \<Rightarrow> db \<Rightarrow> bool" for sha256 where
  empty: "reachable sha256 []"
| step: "reachable sha256 db \<Longrightarrow> event_ok e \<Longrightarrow> reachable sha256 (run_event sha256 e db)"

lemma reachable_db_ok: "reachable sha256 db \<Longrightarrow> sha256_size sha256 \<Longrightarrow> db_ok db"
  by (induction rule: reachable.induct) (auto dest: run_event_lawful simp: lawful_def)

text \<open>
  C1. The table invariant. Starting from the empty table, after any sequence of public
  calls in any environments (failing statements, lost or failed commits, any sane clock),
  ids are unique, an idempotency key is used at most once per queue, every row meets every
  CHECK constraint and the life-cycle shape of its state, and every row decodes to the job
  it stores: the library never trips over its own data.
\<close>

theorem reachable_sound:
  assumes "sha256_size sha256" "reachable sha256 db"
  shows "distinct (map c_id db) \<and> gotth_jobs_idempotency db \<and>
    (\<forall>r \<in> set db. gotth_jobs_checks r \<and> row_shape r \<and> scanJob (Inr (raw_of_row r)) = Inr (job_of_row r))"
proof -
  have ok: "db_ok db" using reachable_db_ok assms by blast
  then have "row_ok r" if "r \<in> set db" for r using that by (rule db_ok_D(3))
  then show ?thesis
    using ok row_ok_shape scanJob_row_ok by (auto simp: db_ok_def primary_key_def row_ok_def)
qed

definition sample_event :: event where
  "sample_event = \<lparr>ev_script = sample_script, ev_repository = sample_repository, ev_ctx = sample_ctx,
     ev_call = Enqueue_call sample_request\<rparr>"

lemma sample_sha256_size [simp]: "sha256_size sample_sha256"
  by (simp add: sha256_size_def sample_sha256_def)

lemma sample_event_ok [simp]: "event_ok sample_event"
  by (simp add: event_ok_def sample_event_def)

theorem reachable_sound_witness:
  "gotth_jobs_idempotency (run_event sample_sha256 sample_event [])"
  using reachable_sound [OF sample_sha256_size reachable.step [OF reachable.empty sample_event_ok]] by blast

section \<open>The life cycle of a job\<close>

text \<open>
  The state machine of \<^verbatim>\<open>docs/architecture.md\<close>: the state, the attempts spent, the
  budget and the token of the current lease. Heartbeats do not appear in it.
\<close>

record life =
  l_state :: string
  l_attempts :: int
  l_budget :: int
  l_token :: "string option"

inductive life_step :: "life \<Rightarrow> life \<Rightarrow> bool" where
  Claimed: "l_state j = StatePending \<or> l_state j = StateRunning \<Longrightarrow> l_attempts j < l_budget j \<Longrightarrow>
    life_step j (j\<lparr>l_state := StateRunning, l_attempts := l_attempts j + 1, l_token := Some t\<rparr>)"
| Completed: "l_state j = StateRunning \<Longrightarrow> life_step j (j\<lparr>l_state := StateSucceeded, l_token := None\<rparr>)"
| Retried: "l_state j = StateRunning \<Longrightarrow> l_attempts j < l_budget j \<Longrightarrow>
    life_step j (j\<lparr>l_state := StatePending, l_token := None\<rparr>)"
| Buried: "l_state j = StateRunning \<Longrightarrow> life_step j (j\<lparr>l_state := StateDead, l_token := None\<rparr>)"
| Canceled: "l_state j = StatePending \<or> l_state j = StateRunning \<Longrightarrow>
    life_step j (j\<lparr>l_state := StateCanceled, l_token := None\<rparr>)"
| Redriven: "l_state j = StateDead \<Longrightarrow> life_step j (j\<lparr>l_state := StatePending, l_attempts := 0\<rparr>)"

definition life_of :: "row \<Rightarrow> life" where
  "life_of r = \<lparr>l_state = c_state r, l_attempts = c_attempts r, l_budget = c_max_attempts r,
     l_token = c_lease_token r\<rparr>"

lemma transition_life:
  assumes "transition au r r'" "row_ok r"
  shows "life_of r' = life_of r \<or> life_step (life_of r) (life_of r')"
  using assms(1)
proof (cases rule: transition.cases)
  case (give token clk worker us)
  then show ?thesis using life_step.Claimed [of "life_of r" token]
    by (auto simp: life_of_def claimed_row_def state_defs)
next
  case (exhaust clk)
  then show ?thesis using life_step.Buried [of "life_of r"]
    by (simp add: life_of_def exhausted_row_def state_defs)
next
  case (complete clk)
  then show ?thesis using life_step.Completed [of "life_of r"]
    by (simp add: life_of_def completed_row_def state_defs)
next
  case (fail clk message permanent us)
  then show ?thesis using life_step.Buried [of "life_of r"] life_step.Retried [of "life_of r"]
    by (auto simp: life_of_def failed_row_def Let_def state_defs)
next
  case (cancel clk)
  then show ?thesis using life_step.Canceled [of "life_of r"]
    by (auto simp: life_of_def canceled_row_def state_defs)
next
  case (redrive clk)
  moreover have "c_lease_token r = None" using row_ok_running(1) [OF assms(2)] redrive(2) by (auto simp: state_defs)
  ultimately show ?thesis using life_step.Redriven [of "life_of r"]
    by (simp add: life_of_def redriven_row_def state_defs)
qed (simp_all add: life_of_def heartbeat_row_def)

text \<open>
  C2. Refinement of the documented state machine. Every public call, in every
  environment, moves every stored job by at most one step of the life cycle (claim,
  complete, retry, bury, cancel, redrive) or leaves its life unchanged, and every job that
  appears starts pending with no attempt spent.
\<close>

theorem run_event_refines_life:
  assumes "sha256_size sha256" "event_ok e" "db_ok db"
  shows "(\<forall>i r. find_row i db = Some r \<longrightarrow>
      (\<exists>r'. find_row i (run_event sha256 e db) = Some r' \<and>
        (life_of r' = life_of r \<or> life_step (life_of r) (life_of r')))) \<and>
    (\<forall>i r'. find_row i db = None \<and> find_row i (run_event sha256 e db) = Some r' \<longrightarrow>
      l_state (life_of r') = StatePending \<and> l_attempts (life_of r') = 0 \<and> l_token (life_of r') = None)"
proof -
  note law = run_event_lawful [OF assms, unfolded lawful_def]
  have "\<exists>r'. find_row i (run_event sha256 e db) = Some r' \<and>
      (life_of r' = life_of r \<or> life_step (life_of r) (life_of r'))" if "find_row i db = Some r" for i r
    using law that transition_life find_row_ok [OF assms(3) that] by blast
  moreover have "l_state (life_of r') = StatePending \<and> l_attempts (life_of r') = 0 \<and> l_token (life_of r') = None"
    if "find_row i db = None" "find_row i (run_event sha256 e db) = Some r'" for i r'
  proof -
    have "newborn r'" using law that by blast
    then show ?thesis by (simp add: newborn_def life_of_def)
  qed
  ultimately show ?thesis by blast
qed

theorem run_event_refines_life_witness:
  "\<exists>r'. find_row sample_id (run_event sample_sha256
      (sample_event\<lparr>ev_call := Cancel_call sample_id\<rparr>) [sample_running]) = Some r' \<and>
     (life_of r' = life_of sample_running \<or> life_step (life_of sample_running) (life_of r'))"
proof -
  have "event_ok (sample_event\<lparr>ev_call := Cancel_call sample_id\<rparr>)" by (simp add: event_ok_def sample_event_def)
  moreover have "find_row sample_id [sample_running] = Some sample_running" by (simp add: find_row_def)
  ultimately show ?thesis
    using run_event_refines_life [OF sample_sha256_size _ sample_db_ok] by blast
qed

section \<open>Whole histories\<close>

definition run_history :: "(bytes \<Rightarrow> bytes) \<Rightarrow> event list \<Rightarrow> db \<Rightarrow> db" where
  "run_history sha256 events db = fold (run_event sha256) events db"

lemma run_history_simps [simp]:
  "run_history sha256 [] db = db"
  "run_history sha256 (e # events) db = run_history sha256 events (run_event sha256 e db)"
  by (simp_all add: run_history_def)

lemma run_history_append: "run_history sha256 (es @ es') db = run_history sha256 es' (run_history sha256 es db)"
  by (simp add: run_history_def)

text \<open>Induction over the life of one row in a history.\<close>

lemma run_history_row:
  assumes "sha256_size sha256" "list_all event_ok events" "db_ok db" "find_row i db = Some r" "P r"
    and step: "\<And>e r r'. e \<in> set events \<Longrightarrow> P r \<Longrightarrow> row_ok r \<Longrightarrow> c_id r = i \<Longrightarrow> transition (event_brings e) r r' \<Longrightarrow> P r'"
  shows "db_ok (run_history sha256 events db) \<and>
    (\<exists>r'. find_row i (run_history sha256 events db) = Some r' \<and> P r')"
  using assms(2-5) step
proof (induction events arbitrary: db r)
  case (Cons e events)
  have law: "lawful (event_brings e) db (run_event sha256 e db)"
    using run_event_lawful [OF assms(1)] Cons.prems(1,2) by simp
  then obtain r1 where r1: "find_row i (run_event sha256 e db) = Some r1" "transition (event_brings e) r r1"
    using Cons.prems(3) unfolding lawful_def by blast
  have "P r1" using Cons.prems(4,5) r1(2) find_row_ok [OF Cons.prems(2,3)] by (metis list.set_intros(1))
  moreover have "db_ok (run_event sha256 e db)" using law by (simp add: lawful_def)
  moreover have "P y'" if "x \<in> set events" "P y" "row_ok y" "c_id y = i" "transition (event_brings x) y y'" for x y y'
    using Cons.prems(5) [of x y y'] that by simp
  moreover have "list_all event_ok events" using Cons.prems(1) by simp
  ultimately show ?case unfolding run_history_simps by (intro Cons.IH [OF _ _ r1(1)]) assumption+
qed auto

text \<open>
  C19. Nothing is lost. Over any history a stored job stays stored, under the same id, with
  the queue, kind, payload, idempotency key, fingerprint, budget and creation time its
  request fixed; and once succeeded or canceled its row is never written again.
\<close>

theorem jobs_never_lost:
  assumes "sha256_size sha256" "list_all event_ok events" "db_ok db" "find_row i db = Some r"
  shows "\<exists>r'. find_row i (run_history sha256 events db) = Some r' \<and> identity r' = identity r \<and>
    (c_state r = StateSucceeded \<or> c_state r = StateCanceled \<longrightarrow> r' = r)"
proof -
  let ?P = "\<lambda>x. identity x = identity r \<and> (c_state r = StateSucceeded \<or> c_state r = StateCanceled \<longrightarrow> x = r)"
  have "\<exists>r'. find_row i (run_history sha256 events db) = Some r' \<and> ?P r'"
    using run_history_row [OF assms, of ?P] transition_keeps_identity transition_final by metis
  then show ?thesis by blast
qed

theorem jobs_never_lost_witness:
  "\<exists>r'. find_row sample_id (run_history sample_sha256 [sample_event] [sample_running]) = Some r' \<and>
     identity r' = identity sample_running"
proof -
  have "find_row sample_id [sample_running] = Some sample_running" "list_all event_ok [sample_event]"
    by (simp_all add: find_row_def)
  from jobs_never_lost [OF sample_sha256_size this(2) sample_db_ok this(1)] show ?thesis by blast
qed

section \<open>Lost leases\<close>

lemma token_lost:
  assumes "sha256_size sha256" "list_all event_ok events" "db_ok db" "find_row i db = Some r"
    "c_lease_token r \<noteq> Some t" "list_all (\<lambda>e. fst (event_brings e) \<noteq> Some t) events"
    "Lease_JobID lease = i" "Lease_Token lease = t"
  shows "db_ok (run_history sha256 events db)" "live_row now lease (run_history sha256 events db) = None"
proof -
  have *: "db_ok (run_history sha256 events db) \<and>
      (\<exists>r'. find_row i (run_history sha256 events db) = Some r' \<and> c_lease_token r' \<noteq> Some t)"
    by (rule run_history_row [OF assms(1-4), where P = "\<lambda>r. c_lease_token r \<noteq> Some t", OF assms(5)])
      (use assms(6) transition_token in \<open>auto simp: list_all_iff\<close>)
  then show "db_ok (run_history sha256 events db)" by blast
  from * assms(7,8) show "live_row now lease (run_history sha256 events db) = None"
    by (auto simp: live_row_def lease_live_def)
qed

text \<open>What a lease can no longer do.\<close>

definition powerless :: "Lease \<Rightarrow> db \<Rightarrow> bool" where
  "powerless lease db \<longleftrightarrow> (\<forall>s repository ctx failure d.
     (\<exists>v e. Complete s repository ctx lease db = (db, v, Some e)) \<and>
     (\<exists>v e. Fail s repository ctx lease failure db = (db, v, Some e)) \<and>
     (\<exists>e. Heartbeat s repository ctx lease d db = (db, (), Some e)))"

lemma powerlessI: "primary_key db \<Longrightarrow> (\<And>now. live_row now lease db = None) \<Longrightarrow> powerless lease db"
  unfolding powerless_def using not_live_fenced by blast

text \<open>
  C3. A lost lease stays lost. Once a job does not hold a given token (another claim
  replaced it, it was acknowledged, canceled or reaped), and as long as no later claim draws
  the same 256-bit token again, then after any history whatsoever that lease can neither
  complete, fail nor extend the job, in any environment.
\<close>

theorem lost_lease_stays_lost:
  assumes "sha256_size sha256" "list_all event_ok events" "db_ok db"
    "find_row (Lease_JobID lease) db = Some r" "c_lease_token r \<noteq> Some (Lease_Token lease)"
    "list_all (\<lambda>e. fst (event_brings e) \<noteq> Some (Lease_Token lease)) events"
  shows "powerless lease (run_history sha256 events db)"
  using token_lost [OF assms refl refl] by (intro powerlessI) (auto dest: db_ok_D)

theorem lost_lease_stays_lost_witness:
  "powerless stale_lease (run_history sample_sha256 [sample_event] [sample_running])"
proof -
  have "find_row (Lease_JobID stale_lease) [sample_running] = Some sample_running"
    by (simp add: find_row_def stale_lease_def)
  moreover have "c_lease_token sample_running \<noteq> Some (Lease_Token stale_lease)"
    by (simp add: sample_running_def stale_lease_def sample_token_def replicate_eq_replicate)
  moreover have "list_all event_ok [sample_event]"
    "list_all (\<lambda>e. fst (event_brings e) \<noteq> Some (Lease_Token stale_lease)) [sample_event]"
    by (simp, simp add: event_brings_def sample_event_def)
  ultimately show ?thesis
    using lost_lease_stays_lost [OF sample_sha256_size _ sample_db_ok] by blast
qed

text \<open>
  C4. An attempt is acknowledged at most once. After \<^verbatim>\<open>Complete\<close> or \<^verbatim>\<open>Fail\<close>
  returned without an error, then through any later history that does not draw the same
  token again, no further \<^verbatim>\<open>Complete\<close>, \<^verbatim>\<open>Fail\<close> or \<^verbatim>\<open>Heartbeat\<close> with that lease
  has any effect.
\<close>

theorem acknowledged_once:
  assumes "sha256_size sha256" "list_all event_ok events" "db_ok db" "clock_sane (s_clock s)"
    "Complete s repository ctx lease db = (db1, job, None) \<or> Fail s repository ctx lease failure db = (db1, job, None)"
    "list_all (\<lambda>e. fst (event_brings e) \<noteq> Some (Lease_Token lease)) events"
  shows "powerless lease (run_history sha256 events db1)"
proof -
  have pk: "primary_key db" using assms(3) by (rule db_ok_D)
  have "db_ok db1" using assms(5) Complete_lawful Fail_lawful assms(3,4) by (auto simp: lawful_def)
  moreover have "\<exists>r. find_row (Lease_JobID lease) db1 = Some r \<and> c_lease_token r = None"
    using assms(5)
  proof
    assume "Complete s repository ctx lease db = (db1, job, None)"
    then show ?thesis
      by (cases rule: Complete_cases [OF _ pk])
        (auto dest!: live_row_D(1) simp: find_set_row_same find_row_Some completed_row_def)
  next
    assume "Fail s repository ctx lease failure db = (db1, job, None)"
    then show ?thesis
      by (cases rule: Fail_cases [OF _ pk])
        (auto dest!: live_row_D(1) simp: find_set_row_same find_row_Some failed_row_def Let_def)
  qed
  ultimately show ?thesis
    using token_lost [OF assms(1,2) _ _ _ assms(6) refl refl] db_ok_D(1)
    by (intro powerlessI) fastforce+
qed

theorem acknowledged_once_witness:
  "powerless sample_lease (run_history sample_sha256 [sample_event] [completed_row sample_clock sample_running])"
proof -
  have "Complete sample_script sample_repository sample_ctx sample_lease [sample_running] =
      ([completed_row sample_clock sample_running], job_of_row (completed_row sample_clock sample_running), None)"
    using Complete_live [OF sample_healthy sample_usable sample_lease_ok sample_db_ok] by (simp add: set_row_def)
  moreover have "list_all event_ok [sample_event]" "clock_sane (s_clock sample_script)"
    "list_all (\<lambda>e. fst (event_brings e) \<noteq> Some (Lease_Token sample_lease)) [sample_event]"
    by (simp, simp, simp add: event_brings_def sample_event_def)
  ultimately show ?thesis
    using acknowledged_once [OF sample_sha256_size _ sample_db_ok] by blast
qed

section \<open>Exclusive ownership of a live lease\<close>

text \<open>A call by the holder of the lease the row carries.\<close>

definition holder_call :: "row \<Rightarrow> call \<Rightarrow> bool" where
  "holder_call r c =
     (case c of
        Heartbeat_call lease d \<Rightarrow> lease_names lease r
      | Complete_call lease \<Rightarrow> lease_names lease r
      | Fail_call lease failure \<Rightarrow> lease_names lease r
      | _ \<Rightarrow> False)"

text \<open>
  A call by anybody else, before the lease ends by every reading of its clock for the row,
  that does not cancel the job.
\<close>

definition outside :: "row \<Rightarrow> event \<Rightarrow> bool" where
  "outside r e \<longleftrightarrow> (\<forall>n. s_clock (ev_script e) n (c_id r) < until_key r) \<and>
     ev_call e \<noteq> Cancel_call (c_id r) \<and> \<not> holder_call r (ev_call e)"

definition holds_lease :: "row \<Rightarrow> bool" where
  "holds_lease r \<longleftrightarrow> c_state r = StateRunning \<and> c_lease_token r \<noteq> None \<and> c_lease_until r \<noteq> None"

lemma lease_live_names: "lease_live now lease r \<Longrightarrow> lease_names lease r"
  by (simp add: lease_live_def lease_names_def)

lemma distinct_set_row:
  "find_row j db = Some x \<Longrightarrow> c_id x' = c_id x \<Longrightarrow> j \<noteq> i \<Longrightarrow> find_row i (set_row j x' db) = find_row i db"
  by (simp add: find_row_Some find_set_row_other)

lemma foreign_set_row:
  assumes "live_row now lease db = Some x" "find_row i db = Some r" "\<not> lease_names lease r" "c_id x' = c_id x"
  shows "find_row i (set_row (Lease_JobID lease) x' db) = Some r"
proof -
  have x: "find_row (Lease_JobID lease) db = Some x" "lease_live now lease x" using assms(1) by (auto simp: live_row_Some)
  have "i \<noteq> Lease_JobID lease" using x assms(2,3) lease_live_names by auto
  with distinct_set_row [OF x(1) assms(4)] assms(2) show ?thesis by simp
qed

lemma enqueuePrepared_find:
  assumes "enqueuePrepared sha256 s n (cloneEnqueue request) db = (db', v, err)"
    "enqueue_admitted sha256 s request" "find_row i db = Some r"
  shows "find_row i db' = Some r"
  using assms(1,2) by (cases rule: enqueuePrepared_cases) (use assms(3) in \<open>auto simp: find_row_append\<close>)

lemma enqueue_calls_find:
  assumes "enqueue_sane sha256 s request" "find_row i db = Some r"
  shows "Enqueue sha256 s repository ctx request db = (db', v, err) \<Longrightarrow> find_row i db' = Some r"
    "EnqueueTx sha256 s repository ctx tx request db = (db', v, err) \<Longrightarrow> find_row i db' = Some r"
proof -
  have adm: "enqueue_admitted sha256 s request" if "validateEnqueue request = None"
    using that assms(1) by (simp add: enqueue_admitted_def enqueue_sane_def)
  show "find_row i db' = Some r" if "Enqueue sha256 s repository ctx request db = (db', v, err)"
    using that
  proof (cases rule: Enqueue_cases)
    case 2
    show ?thesis
      by (rule transact_invariant [OF 2(2), of "\<lambda>db'. find_row i db' = Some r"])
        (use assms(2) enqueuePrepared_find [OF _ adm [OF 2(1)]] in blast)+
  qed (simp add: assms(2))
  show "find_row i db' = Some r" if run: "EnqueueTx sha256 s repository ctx tx request db = (db', v, err)"
  proof -
    consider "db' = db" | "validateEnqueue request = None" "enqueuePrepared sha256 s 1 (cloneEnqueue request) db = (db', v, err)"
      using run by (auto simp: EnqueueTx_def split: if_splits option.splits)
    then show ?thesis
      by cases (use assms(2) enqueuePrepared_find [OF _ adm] in blast)+
  qed
qed

lemma foreign_calls_find:
  assumes "primary_key db" "find_row i db = Some r" "\<not> lease_names lease r"
  shows "Heartbeat s repository ctx lease d db = (db', u, err) \<Longrightarrow> find_row i db' = Some r"
    "Complete s repository ctx lease db = (db', v, err) \<Longrightarrow> find_row i db' = Some r"
    "Fail s repository ctx lease failure db = (db', v, err) \<Longrightarrow> find_row i db' = Some r"
proof -
  note foreign = foreign_set_row [OF _ assms(2,3)]
  show "find_row i db' = Some r" if "Heartbeat s repository ctx lease d db = (db', u, err)"
    using that assms(1) by (cases rule: Heartbeat_cases) (auto intro: foreign simp: assms(2) heartbeat_row_def)
  show "find_row i db' = Some r" if "Complete s repository ctx lease db = (db', v, err)"
    using that assms(1) by (cases rule: Complete_cases) (auto intro: foreign simp: assms(2) completed_row_def)
  show "find_row i db' = Some r" if "Fail s repository ctx lease failure db = (db', v, err)"
    using that assms(1) by (cases rule: Fail_cases) (auto intro: foreign simp: assms(2) failed_row_def Let_def)
qed

lemma operator_calls_find:
  assumes "primary_key db" "find_row i db = Some r"
  shows "Cancel s repository ctx j db = (db', v, err) \<Longrightarrow> j \<noteq> i \<Longrightarrow> find_row i db' = Some r"
    "Redrive s repository ctx j db = (db', v, err) \<Longrightarrow> c_state r = StateRunning \<Longrightarrow> find_row i db' = Some r"
proof -
  show "find_row i db' = Some r" if "Cancel s repository ctx j db = (db', v, err)" "j \<noteq> i"
    using that(1) assms(1) by (cases rule: Cancel_cases) (simp_all add: assms(2) that(2) distinct_set_row canceled_row_def)
  show "find_row i db' = Some r" if "Redrive s repository ctx j db = (db', v, err)" "c_state r = StateRunning"
    using that(1) assms(1)
  proof (cases rule: Redrive_cases)
    case (applied x)
    then have "j \<noteq> i" using assms(2) that(2) by (auto simp: redrivable_def state_defs)
    with applied assms(2) show ?thesis by (simp add: distinct_set_row redriven_row_def)
  qed (simp add: assms(2))
qed

lemma run_event_outside:
  assumes "sha256_size sha256" "event_ok e" "db_ok db" "find_row i db = Some r" "holds_lease r" "outside r e"
  shows "find_row i (run_event sha256 e db) = Some r"
proof -
  let ?s = "ev_script e" and ?p = "ev_repository e" and ?c = "ev_ctx e"
  have pk: "primary_key db" using assms(3) by (rule db_ok_D)
  have i: "c_id r = i" using find_row_Some [OF assms(4)] by simp
  have run: "c_state r = StateRunning" "\<And>n. s_clock ?s n i < until_key r"
    using assms(5,6) i by (simp_all add: holds_lease_def outside_def)
  have foreign: "\<not> holder_call r (ev_call e)" using assms(6) by (simp add: outside_def)
  have sane: "enqueue_sane sha256 ?s request" if "time_ok (Enqueue_AvailableAt request)" for request
    using that assms(1,2) by (simp add: event_ok_def enqueue_sane_def)
  note after = after_call [where P = "\<lambda>db'. find_row i db' = Some r"]
  show ?thesis
  proof (cases "ev_call e")
    case (Enqueue_call request)
    then have t: "time_ok (Enqueue_AvailableAt request)" using assms(2) by (simp add: event_ok_def)
    from Enqueue_call show ?thesis
      by (simp add: run_event_def) (rule after, erule enqueue_calls_find(1) [OF sane [OF t] assms(4)])
  next
    case (EnqueueTx_call tx request commit)
    then have t: "time_ok (Enqueue_AvailableAt request)" using assms(2) by (simp add: event_ok_def)
    have "find_row i (fst (EnqueueTx sha256 ?s ?p ?c tx request db)) = Some r"
      by (rule after, erule enqueue_calls_find(2) [OF sane [OF t] assms(4)])
    with EnqueueTx_call assms(4) show ?thesis by (simp add: run_event_def)
  next
    case (Claim_call request)
    obtain u where "c_lease_until r = Some u" "until_key r = u" using assms(5) by (auto simp: holds_lease_def until_key_def)
    with Claim_call run show ?thesis
      by (simp add: run_event_def) (rule after, erule live_lease_protected [OF _ pk assms(4)], simp_all)
  next
    case (Heartbeat_call lease d)
    then have names: "\<not> lease_names lease r" using foreign by (simp add: holder_call_def)
    from Heartbeat_call show ?thesis
      by (simp add: run_event_def) (rule after, erule foreign_calls_find(1) [OF pk assms(4) names])
  next
    case (Complete_call lease)
    then have names: "\<not> lease_names lease r" using foreign by (simp add: holder_call_def)
    from Complete_call show ?thesis
      by (simp add: run_event_def) (rule after, erule foreign_calls_find(2) [OF pk assms(4) names])
  next
    case (Fail_call lease failure)
    then have names: "\<not> lease_names lease r" using foreign by (simp add: holder_call_def)
    from Fail_call show ?thesis
      by (simp add: run_event_def) (rule after, erule foreign_calls_find(3) [OF pk assms(4) names])
  next
    case (Cancel_call j)
    then have j: "j \<noteq> i" using assms(6) i by (simp add: outside_def)
    from Cancel_call show ?thesis
      by (simp add: run_event_def) (rule after, erule operator_calls_find(1) [OF pk assms(4) _ j])
  next
    case (Redrive_call j)
    then show ?thesis by (simp add: run_event_def) (rule after, erule operator_calls_find(2) [OF pk assms(4) _ run(1)])
  qed
qed

lemma run_history_outside:
  assumes "sha256_size sha256" "list_all event_ok events" "db_ok db" "find_row i db = Some r" "holds_lease r"
    "list_all (outside r) events"
  shows "find_row i (run_history sha256 events db) = Some r \<and> db_ok (run_history sha256 events db)"
  using assms(2-4,6)
proof (induction events arbitrary: db)
  case (Cons e events)
  have "db_ok (run_event sha256 e db)"
    using run_event_lawful [OF assms(1)] Cons.prems(1,2) by (simp add: lawful_def)
  with Cons run_event_outside [OF assms(1) _ _ _ assms(5)] show ?case by simp
qed simp

text \<open>
  C6. A live lease is exclusive. While the lease of a running job has not ended, nothing that
  anybody else does, claims of any number of workers, acknowledgements with other leases,
  enqueues, redrives, cancellation of other jobs, in any environments and any order, changes
  its row: only its holder, a cancellation of the job or the end of the lease can.
\<close>

theorem lease_exclusive:
  assumes "sha256_size sha256" "list_all event_ok events" "db_ok db" "find_row i db = Some r"
    "c_state r = StateRunning" "list_all (outside r) events"
  shows "find_row i (run_history sha256 events db) = Some r"
proof -
  have "row_ok r" using find_row_ok [OF assms(3,4)] by blast
  then have "holds_lease r" using assms(5) row_ok_running [of r] by (auto simp: holds_lease_def)
  from run_history_outside [OF assms(1-4) this assms(6)] show ?thesis by blast
qed

definition rival_claim :: event where
  "rival_claim = sample_event\<lparr>ev_call := Claim_call sample_claim\<rparr>"

theorem lease_exclusive_witness:
  "find_row sample_id (run_history sample_sha256 [rival_claim, sample_event, rival_claim] [sample_running]) = Some sample_running"
proof -
  have "find_row sample_id [sample_running] = Some sample_running" "c_state sample_running = StateRunning"
    by (simp_all add: find_row_def) (simp add: sample_running_def state_defs)
  moreover have "list_all event_ok [rival_claim, sample_event, rival_claim]"
    by (simp add: rival_claim_def event_ok_def) (simp add: sample_event_def)
  moreover have "list_all (outside sample_running) [rival_claim, sample_event, rival_claim]"
    by (simp add: rival_claim_def outside_def holder_call_def sample_event_def until_key_def sample_running_def sample_clock_def)
  ultimately show ?thesis using lease_exclusive [OF sample_sha256_size _ sample_db_ok] by blast
qed

section \<open>The attempt budget over histories\<close>

definition spent :: "string \<Rightarrow> db \<Rightarrow> int" where
  "spent i db = (case find_row i db of Some r \<Rightarrow> c_attempts r | None \<Rightarrow> 0)"

text \<open>How often an attempt was added to a job in a history.\<close>

fun handouts :: "(bytes \<Rightarrow> bytes) \<Rightarrow> string \<Rightarrow> event list \<Rightarrow> db \<Rightarrow> nat" where
  "handouts sha256 i [] db = 0"
| "handouts sha256 i (e # events) db =
     (if spent i db < spent i (run_event sha256 e db) then 1 else 0) + handouts sha256 i events (run_event sha256 e db)"

text \<open>
  A claim hands a job out when it writes the job's row and leaves it running: this looks at
  the call and at the row, not at the attempts recorded. A claim whose answer was lost counts
  too. The caller is told of it when the claim answers with the job and no error.
\<close>

definition claims_job :: "(bytes \<Rightarrow> bytes) \<Rightarrow> string \<Rightarrow> event \<Rightarrow> db \<Rightarrow> bool" where
  "claims_job sha256 i e db \<longleftrightarrow>
     (case ev_call e of Claim_call _ \<Rightarrow> True | _ \<Rightarrow> False) \<and>
     find_row i (run_event sha256 e db) \<noteq> find_row i db \<and>
     map_option c_state (find_row i (run_event sha256 e db)) = Some StateRunning"

definition confirms_job :: "string \<Rightarrow> event \<Rightarrow> db \<Rightarrow> bool" where
  "confirms_job i e db =
     (case ev_call e of
        Claim_call request \<Rightarrow>
          (case Claim (ev_script e) (ev_repository e) (ev_ctx e) request db of
             (_, job, err) \<Rightarrow> err = None \<and> Job_ID job = i)
      | _ \<Rightarrow> False)"

fun count_events :: "(bytes \<Rightarrow> bytes) \<Rightarrow> (event \<Rightarrow> db \<Rightarrow> bool) \<Rightarrow> event list \<Rightarrow> db \<Rightarrow> nat" where
  "count_events sha256 P [] db = 0"
| "count_events sha256 P (e # events) db =
     (if P e db then 1 else 0) + count_events sha256 P events (run_event sha256 e db)"

lemma transition_unclaimed:
  "transition au r r' \<Longrightarrow> fst au = None \<Longrightarrow> snd au \<noteq> Some (c_id r) \<Longrightarrow> c_attempts r' = c_attempts r"
  by (induction rule: transition.induct)
    (auto simp: exhausted_row_def heartbeat_row_def completed_row_def failed_row_def canceled_row_def Let_def)

lemma claims_job_attempts:
  assumes "sha256_size sha256" "event_ok e" "db_ok db" "find_row i db = Some r" "ev_call e \<noteq> Redrive_call i"
    "find_row i (run_event sha256 e db) = Some r'"
  shows "c_attempts r' = c_attempts r + (if claims_job sha256 i e db then 1 else 0)"
proof (cases "\<exists>request. ev_call e = Claim_call request")
  case True
  then obtain request where call: "ev_call e = Claim_call request" by blast
  obtain db' v err where c: "Claim (ev_script e) (ev_repository e) (ev_ctx e) request db = (db', v, err)"
    using prod_cases3 by blast
  have db': "run_event sha256 e db = db'" using call c by (simp add: run_event_def)
  note claims = claims_job_def call db' assms(4) call.simps
  from c db_ok_D(1) [OF assms(3)] assms(4) show ?thesis
  proof (cases rule: Claim_row)
    case same
    then show ?thesis using assms(6) by (simp add: claims)
  next
    case exhausted
    then show ?thesis using assms(6) by (simp add: claims) (auto simp: exhausted_row_def state_defs)
  next
    case (given token)
    let ?g = "granted (ev_script e) request token r"
    have "r' = ?g" using given(4) assms(6) db' by simp
    moreover have "c_attempts ?g = c_attempts r + 1" "c_state ?g = StateRunning"
      by (simp_all add: claimed_row_def state_defs)
    ultimately show ?thesis using given(4) by (auto simp: claims)
  qed
next
  case False
  then have "\<not> claims_job sha256 i e db" "fst (event_brings e) = None"
    by (auto simp: claims_job_def event_brings_def split: call.splits)
  moreover have "snd (event_brings e) \<noteq> Some (c_id r)"
    using assms(5) find_row_Some [OF assms(4)] by (auto simp: event_brings_def split: call.splits)
  moreover have "transition (event_brings e) r r'"
    using run_event_lawful [OF assms(1-3)] assms(4,6) unfolding lawful_def by fastforce
  ultimately show ?thesis using transition_unclaimed by simp
qed

lemma confirms_claims:
  assumes "confirms_job i e db" "event_ok e" "db_ok db"
  shows "claims_job sha256 i e db"
proof -
  let ?s = "ev_script e"
  obtain request db' job where call: "ev_call e = Claim_call request"
    and c: "Claim ?s (ev_repository e) (ev_ctx e) request db = (db', job, None)" "Job_ID job = i"
    using assms(1) by (auto simp: confirms_job_def split: call.splits prod.splits)
  have clk: "clock_sane (s_clock ?s)" using assms(2) by (simp add: event_ok_def)
  obtain token r where r: "candidate ?s (Claim_Queue request) db = [r]" "r \<in> set (claimable ?s (Claim_Queue request) db)"
    "job = job_of_row (granted ?s request token r)" "db' = claim_table ?s request token db"
    using Claim_Ok [OF c(1) assms(3) clk] by metis
  have i: "c_id r = i" using c(2) r(3) by (simp add: claimed_row_def)
  have "find_row i db' = Some (granted ?s request token r)"
    using find_candidate [OF db_ok_D(1) [OF assms(3)] r(1)] r(4) i by simp
  moreover have "find_row i db = Some r" using find_row_member [OF db_ok_D(1) [OF assms(3)] claimable_D(1) [OF r(2)]] i by simp
  moreover have "granted ?s request token r \<noteq> r" "c_state (granted ?s request token r) = StateRunning"
    by (auto simp: claimed_row_def state_defs dest: arg_cong [of _ _ c_attempts])
  ultimately show ?thesis using call c(1) by (simp add: claims_job_def run_event_def)
qed

lemma claims_counted:
  assumes "sha256_size sha256" "list_all event_ok events" "db_ok db" "find_row i db = Some r"
    "list_all (\<lambda>e. ev_call e \<noteq> Redrive_call i) events"
  shows "spent i (run_history sha256 events db) = c_attempts r + int (count_events sha256 (claims_job sha256 i) events db) \<and>
    count_events sha256 (confirms_job i) events db \<le> count_events sha256 (claims_job sha256 i) events db"
  using assms(2-5)
proof (induction events arbitrary: db r)
  case Nil
  then show ?case by (simp add: spent_def)
next
  case (Cons e events)
  have law: "lawful (event_brings e) db (run_event sha256 e db)"
    using run_event_lawful [OF assms(1)] Cons.prems(1,2) by simp
  then obtain r1 where r1: "find_row i (run_event sha256 e db) = Some r1"
    using Cons.prems(3) unfolding lawful_def by blast
  have "c_attempts r1 = c_attempts r + (if claims_job sha256 i e db then 1 else 0)"
    using claims_job_attempts [OF assms(1) _ Cons.prems(2,3) _ r1] Cons.prems(1,4) by simp
  moreover have "claims_job sha256 i e db" if "confirms_job i e db"
    using confirms_claims [OF that] Cons.prems(1,2) by simp
  ultimately show ?case using Cons.IH [OF _ _ r1] Cons.prems(1,4) law by (auto simp: lawful_def)
qed

text \<open>
  C18. The attempt budget holds over whole histories. Without a redrive of the job, the
  attempts recorded at the end are the attempts at the start plus the number of claims that
  handed the job out, first claims and re-claims of an expired lease alike, by whatever
  workers and through whatever crashes, lost answers and expiries; the claims whose callers
  were told of the job are among them; and the sum never exceeds the job's budget. So between
  redrives a job runs at most \<^verbatim>\<open>MaxAttempts\<close> of its request times.
\<close>

theorem claims_within_budget:
  assumes "sha256_size sha256" "list_all event_ok events" "db_ok db" "find_row i db = Some r"
    "list_all (\<lambda>e. ev_call e \<noteq> Redrive_call i) events"
  shows "\<exists>r'. find_row i (run_history sha256 events db) = Some r' \<and>
    c_attempts r' = c_attempts r + int (count_events sha256 (claims_job sha256 i) events db) \<and>
    count_events sha256 (confirms_job i) events db \<le> count_events sha256 (claims_job sha256 i) events db \<and>
    c_attempts r + int (count_events sha256 (claims_job sha256 i) events db) \<le> c_max_attempts r"
proof -
  let ?P = "\<lambda>x. c_max_attempts x = c_max_attempts r"
  have "db_ok (run_history sha256 events db) \<and> (\<exists>r'. find_row i (run_history sha256 events db) = Some r' \<and> ?P r')"
    by (rule run_history_row [OF assms(1-4), where P = ?P]) (auto simp: identity_D(6) [OF transition_keeps_identity])
  then obtain r' where r': "find_row i (run_history sha256 events db) = Some r'" "?P r'" "row_ok r'"
    using find_row_ok by blast
  have "c_attempts r' \<le> c_max_attempts r" using row_ok_scalars(9) [OF r'(3)] r'(2) by simp
  with claims_counted [OF assms] r'(1) show ?thesis by (simp add: spent_def)
qed

text \<open>A running job whose lease ended with an attempt left, claimed again by a second worker.\<close>

definition sample_expired :: row where
  "sample_expired = sample_running\<lparr>c_lease_until := Some 3000000\<rparr>"

lemma sample_expired_ok: "db_ok [sample_expired]"
proof -
  have "row_ok sample_expired"
    by (rule row_okI)
      (use row_ok_scalars [OF sample_row_ok] row_ok_shape [OF sample_row_ok] in
        \<open>simp_all add: sample_expired_def row_shape_def state_defs\<close>,
       simp_all add: sample_running_def pg_instant_def pg_finite_def pg_zero_def)
  then show ?thesis by (simp add: db_ok_def primary_key_def gotth_jobs_idempotency_def)
qed

theorem claims_within_budget_witness:
  "c_attempts sample_expired = 1 \<and> c_max_attempts sample_expired = 2 \<and>
   count_events sample_sha256 (confirms_job sample_id) [rival_claim] [sample_expired] = 1 \<and>
   count_events sample_sha256 (claims_job sample_sha256 sample_id) [rival_claim] [sample_expired] = 1 \<and>
   (\<exists>r'. find_row sample_id (run_history sample_sha256 [rival_claim] [sample_expired]) = Some r' \<and> c_attempts r' = 2)"
proof -
  have columns: "c_attempts sample_expired = 1" "c_max_attempts sample_expired = 2" "c_id sample_expired = sample_id"
    by (simp_all add: sample_expired_def sample_running_def)
  have "candidate sample_script (Claim_Queue sample_claim) [sample_expired] = [sample_expired]"
    by (simp add: claim_candidate_def top_by_def claim_eligible_def expired_def sample_claim_def sample_expired_def
        sample_running_def sample_clock_def)
  then have "confirms_job sample_id rival_claim [sample_expired]"
    using Claim_run [OF sample_healthy sample_usable sample_claim_valid sample_newLeaseToken sample_expired_ok] columns(3)
    by (simp add: confirms_job_def rival_claim_def sample_event_def claimed_row_def)
  then have one: "count_events sample_sha256 (confirms_job sample_id) [rival_claim] [sample_expired] = 1" by simp
  have "find_row sample_id [sample_expired] = Some sample_expired" "list_all event_ok [rival_claim]"
    "list_all (\<lambda>e. ev_call e \<noteq> Redrive_call sample_id) [rival_claim]"
    using columns(3) by (simp_all add: find_row_def rival_claim_def event_ok_def sample_event_def)
  from claims_within_budget [OF sample_sha256_size this(2) sample_expired_ok this(1,3)] columns one
  show ?thesis by fastforce
qed

section \<open>Inputs the library refuses\<close>

definition refuses :: "db \<times> 'a \<times> error \<Rightarrow> db \<Rightarrow> bool" where
  "refuses result db \<longleftrightarrow> (\<exists>v e. result = (db, v, Some e) \<and> errors_Is e ErrInvalid)"

lemma validateLeaseOperation_Some:
  "\<not> lease_ok lease \<or> \<not> usable repository ctx \<Longrightarrow>
   \<exists>e. validateLeaseOperation repository ctx lease = Some e \<and> errors_Is e ErrInvalid"
  by (auto simp: validateLeaseOperation_def lease_ok_def job_id_ok_def token_ok_def)

lemma validateMutation_Some:
  "\<not> job_id_ok i \<or> \<not> usable repository ctx \<Longrightarrow>
   \<exists>e. validateMutation repository ctx i = Some e \<and> errors_Is e ErrInvalid"
  by (auto simp: validateMutation_def validateRead_def validateJobID_def job_id_ok_def)

text \<open>A read has no table to return: it is refused when it answers with nothing but the error.\<close>

definition refuses_read :: "'a \<times> error \<Rightarrow> 'a \<Rightarrow> bool" where
  "refuses_read answer zero \<longleftrightarrow> (\<exists>e. answer = (zero, Some e) \<and> errors_Is e ErrInvalid)"

text \<open>
  The handles \<^verbatim>\<open>Enqueue\<close> and \<^verbatim>\<open>EnqueueTx\<close> refuse themselves: a nil repository, a
  repository without a database, or a nil context.
\<close>

definition missing_handle :: "repository \<Rightarrow> ctx \<Rightarrow> bool" where
  "missing_handle repository ctx \<longleftrightarrow>
     (case repository of None \<Rightarrow> True | Some p \<Rightarrow> database p = NilInterface) \<or> ctx = NilInterface"

lemma validateQueue_Some:
  "validateName label queue n \<noteq> None \<Longrightarrow> \<exists>e. validateName label queue n = Some e \<and> errors_Is e ErrInvalid"
  using validateName_ErrInvalid by blast

definition cursor_ok :: "DeadCursor \<Rightarrow> bool" where
  "cursor_ok c \<longleftrightarrow> isPostgreSQLTimestamp (Cursor_FinishedAt c) \<and> job_id_ok (Cursor_ID c)"

lemma enqueues_refused:
  assumes "validateEnqueue request \<noteq> None \<or> missing_handle repository ctx"
  shows "refuses (Enqueue sha256 s repository ctx request db) db"
  using assms validation_ErrInvalid(1)
  by (auto simp: refuses_def Enqueue_def prepareEnqueue_def missing_handle_def split: option.splits)

lemma enqueueTxs_refused:
  assumes "validateEnqueue request \<noteq> None \<or> missing_handle repository ctx \<or> nilLike tx"
  shows "refuses (EnqueueTx sha256 s repository ctx tx request db) db"
  using assms validation_ErrInvalid(1)
  by (auto simp: refuses_def EnqueueTx_def missing_handle_def or_else_def split: option.splits)

lemma reads_refused:
  shows "\<not> usable repository ctx \<or> \<not> job_id_ok i \<Longrightarrow> refuses_read (Get s repository ctx i db) zero_Job"
    and "\<not> usable repository ctx \<or> validateName ''queue'' queue MaxQueueBytes \<noteq> None \<Longrightarrow>
      refuses_read (Counts_op s repository ctx queue db) zero_Counts"
    and "\<not> usable repository ctx \<or> validateName ''queue'' queue MaxQueueBytes \<noteq> None \<or>
      limit < 1 \<or> limit > MaxDeadPage \<or> (\<exists>c. cursor = Some c \<and> \<not> cursor_ok c) \<Longrightarrow>
      refuses_read (ListDead s repository ctx queue cursor limit db) None"
proof -
  show "refuses_read (Get s repository ctx i db) zero_Job" if "\<not> usable repository ctx \<or> \<not> job_id_ok i"
    using that by (auto simp: refuses_read_def Get_def validateRead_def validateJobID_def job_id_ok_def or_else_def)
  show "refuses_read (Counts_op s repository ctx queue db) zero_Counts"
    if "\<not> usable repository ctx \<or> validateName ''queue'' queue MaxQueueBytes \<noteq> None"
    using that validateQueue_Some [of "''queue''" queue MaxQueueBytes]
    by (auto simp: refuses_read_def Counts_op_def validateRead_def or_else_def)
  assume bad: "\<not> usable repository ctx \<or> validateName ''queue'' queue MaxQueueBytes \<noteq> None \<or>
      limit < 1 \<or> limit > MaxDeadPage \<or> (\<exists>c. cursor = Some c \<and> \<not> cursor_ok c)"
  show "refuses_read (ListDead s repository ctx queue cursor limit db) None"
  proof (cases "or_else (validateRead repository ctx) (validateName ''queue'' queue MaxQueueBytes)")
    case None
    then have "limit < 1 \<or> limit > MaxDeadPage \<or> (\<exists>c. cursor = Some c \<and> \<not> cursor_ok c)"
      using bad by (auto simp: validateRead_def or_else_def split: option.splits)
    then show ?thesis
      unfolding ListDead_def None
      by (auto simp: refuses_read_def cursor_arguments_def cursor_ok_def validateJobID_def job_id_ok_def)
  next
    case (Some e)
    then have "errors_Is e ErrInvalid"
      using validateName_ErrInvalid by (auto simp: or_else_Some_iff validateRead_def split: if_splits)
    with Some show ?thesis by (simp add: ListDead_def refuses_read_def)
  qed
qed

text \<open>
  C24. Invalid input never reaches the database, in any public function and under every
  environment. An enqueue request that fails validation, in the library's transaction or in
  the caller's, an invalid claim, failure, lease or job id, a lease duration out of range or
  finer than a microsecond, a queue name, page limit or page cursor that is not valid, a
  missing transaction, and an unusable handle or context are each refused with
  \<^verbatim>\<open>ErrInvalid\<close>; a mutation leaves the table unchanged and a read returns nothing.
  \<^verbatim>\<open>Enqueue\<close> and \<^verbatim>\<open>EnqueueTx\<close> look for nil handles only, the other functions also for
  a database interface that holds a nil pointer, which \<^verbatim>\<open>NewPostgreSQL\<close> never lets in.
\<close>

theorem invalid_inputs_refused:
  "(validateEnqueue request \<noteq> None \<or> missing_handle repository ctx \<longrightarrow>
      refuses (Enqueue sha256 s repository ctx request db) db) \<and>
   (validateEnqueue request \<noteq> None \<or> missing_handle repository ctx \<or> nilLike tx \<longrightarrow>
      refuses (EnqueueTx sha256 s repository ctx tx request db) db) \<and>
   (validateClaim claim \<noteq> None \<or> \<not> usable repository ctx \<longrightarrow> refuses (Claim s repository ctx claim db) db) \<and>
   (\<not> lease_ok lease \<or> \<not> usable repository ctx \<longrightarrow>
      refuses (Complete s repository ctx lease db) db \<and> refuses (Fail s repository ctx lease failure db) db \<and>
      refuses (Heartbeat s repository ctx lease d db) db) \<and>
   (validateFailure failure \<noteq> None \<longrightarrow> refuses (Fail s repository ctx lease failure db) db) \<and>
   (d < MinLeaseDuration \<or> MaxLeaseDuration < d \<or> d mod 1000 \<noteq> 0 \<longrightarrow>
      refuses (Heartbeat s repository ctx lease d db) db) \<and>
   (\<not> job_id_ok i \<or> \<not> usable repository ctx \<longrightarrow>
      refuses (Cancel s repository ctx i db) db \<and> refuses (Redrive s repository ctx i db) db) \<and>
   (\<not> usable repository ctx \<or> \<not> job_id_ok i \<longrightarrow> refuses_read (Get s repository ctx i db) zero_Job) \<and>
   (\<not> usable repository ctx \<or> validateName ''queue'' queue MaxQueueBytes \<noteq> None \<longrightarrow>
      refuses_read (Counts_op s repository ctx queue db) zero_Counts) \<and>
   (\<not> usable repository ctx \<or> validateName ''queue'' queue MaxQueueBytes \<noteq> None \<or>
      limit < 1 \<or> limit > MaxDeadPage \<or> (\<exists>c. cursor = Some c \<and> \<not> cursor_ok c) \<longrightarrow>
      refuses_read (ListDead s repository ctx queue cursor limit db) None)"
proof (intro conjI impI)
  show "refuses (Enqueue sha256 s repository ctx request db) db"
    if "validateEnqueue request \<noteq> None \<or> missing_handle repository ctx"
    using that by (rule enqueues_refused)
  show "refuses (EnqueueTx sha256 s repository ctx tx request db) db"
    if "validateEnqueue request \<noteq> None \<or> missing_handle repository ctx \<or> nilLike tx"
    using that by (rule enqueueTxs_refused)
  show "refuses_read (Get s repository ctx i db) zero_Job" if "\<not> usable repository ctx \<or> \<not> job_id_ok i"
    using that by (rule reads_refused)
  show "refuses_read (Counts_op s repository ctx queue db) zero_Counts"
    if "\<not> usable repository ctx \<or> validateName ''queue'' queue MaxQueueBytes \<noteq> None"
    using that by (rule reads_refused)
  show "refuses_read (ListDead s repository ctx queue cursor limit db) None"
    if "\<not> usable repository ctx \<or> validateName ''queue'' queue MaxQueueBytes \<noteq> None \<or>
      limit < 1 \<or> limit > MaxDeadPage \<or> (\<exists>c. cursor = Some c \<and> \<not> cursor_ok c)"
    using that by (rule reads_refused)
  show "refuses (Claim s repository ctx claim db) db" if "validateClaim claim \<noteq> None \<or> \<not> usable repository ctx"
    using that validation_ErrInvalid(2) by (auto simp: refuses_def Claim_def)
  show "refuses (Complete s repository ctx lease db) db" if "\<not> lease_ok lease \<or> \<not> usable repository ctx"
    using validateLeaseOperation_Some [OF that] by (auto simp: refuses_def Complete_def)
  show "refuses (Fail s repository ctx lease failure db) db" if "\<not> lease_ok lease \<or> \<not> usable repository ctx"
    using validateLeaseOperation_Some [OF that] by (auto simp: refuses_def Fail_def)
  show "refuses (Heartbeat s repository ctx lease d db) db" if "\<not> lease_ok lease \<or> \<not> usable repository ctx"
    using validateLeaseOperation_Some [OF that] by (auto simp: refuses_def Heartbeat_def)
  show "refuses (Fail s repository ctx lease failure db) db" if bad: "validateFailure failure \<noteq> None"
  proof -
    obtain e where "or_else (validateLeaseOperation repository ctx lease) (validateFailure failure) = Some e"
      "errors_Is e ErrInvalid"
      using bad validation_ErrInvalid(3) validateLeaseOperation_Some [of lease repository ctx]
      by (cases "lease_ok lease \<and> usable repository ctx") (auto simp: or_else_def)
    then show ?thesis by (simp add: refuses_def Fail_def)
  qed
  show "refuses (Heartbeat s repository ctx lease d db) db"
    if "d < MinLeaseDuration \<or> MaxLeaseDuration < d \<or> d mod 1000 \<noteq> 0"
  proof (cases "lease_ok lease \<and> usable repository ctx")
    case True
    then have "validateLeaseOperation repository ctx lease = None" by simp
    with that show ?thesis
      unfolding Heartbeat_def refuses_def by (auto simp: go_defs smod_pos)
  next
    case False
    then show ?thesis
      using validateLeaseOperation_Some [of lease repository ctx] by (auto simp: refuses_def Heartbeat_def)
  qed
  show "refuses (Cancel s repository ctx i db) db" if "\<not> job_id_ok i \<or> \<not> usable repository ctx"
    using validateMutation_Some [OF that] by (auto simp: refuses_def Cancel_def)
  show "refuses (Redrive s repository ctx i db) db" if "\<not> job_id_ok i \<or> \<not> usable repository ctx"
    using validateMutation_Some [OF that] by (auto simp: refuses_def Redrive_def)
qed

theorem invalid_inputs_refused_witness:
  "refuses (Cancel sample_script sample_repository sample_ctx ''not an id'' [sample_running]) [sample_running] \<and>
   refuses (EnqueueTx sample_sha256 sample_script sample_repository sample_ctx (Boxed Pointer False)
     (sample_request\<lparr>Enqueue_MaxAttempts := 0\<rparr>) [sample_running]) [sample_running] \<and>
   refuses_read (ListDead sample_script sample_repository sample_ctx ''q'' None 101 [sample_running]) None"
proof (intro conjI)
  have "\<not> job_id_ok ''not an id''" by (simp add: job_id_ok_def)
  then show "refuses (Cancel sample_script sample_repository sample_ctx ''not an id'' [sample_running]) [sample_running]"
    using invalid_inputs_refused by blast
  have "validateEnqueue (sample_request\<lparr>Enqueue_MaxAttempts := 0\<rparr>) \<noteq> None" by (simp add: validateEnqueue_None)
  then show "refuses (EnqueueTx sample_sha256 sample_script sample_repository sample_ctx (Boxed Pointer False)
     (sample_request\<lparr>Enqueue_MaxAttempts := 0\<rparr>) [sample_running]) [sample_running]"
    using invalid_inputs_refused [THEN conjunct2, THEN conjunct1] by blast
  have "(101::int) > MaxDeadPage" by (simp add: go_defs)
  then show "refuses_read (ListDead sample_script sample_repository sample_ctx ''q'' None 101 [sample_running]) None"
    using invalid_inputs_refused [where limit = 101 and queue = "''q''" and cursor = None] by blast
qed

end
