(* ===== verification/Worker.thy ===== *)
theory Worker
  imports Retry Machine
begin

text \<open>
  \<^verbatim>\<open>worker.go\<close>: the claim, handle, acknowledge loop over any \<^verbatim>\<open>Store\<close>. The store
  and the handler act on a world of any type \<open>'w\<close>. What the Go scheduler, the timers and
  the contexts decide is an argument: which case each \<^verbatim>\<open>select\<close> of the heartbeat
  goroutine takes and before or after the handler's effect, whether \<^verbatim>\<open>cancel(errHandlerFinished)\<close>
  came first, what \<^verbatim>\<open>ctx.Err()\<close> says at each check.
\<close>

section \<open>Types\<close>

text \<open>The interface \<^verbatim>\<open>Store\<close>.\<close>

record 'w Store =
  st_Claim :: "'w \<Rightarrow> ClaimRequest \<Rightarrow> 'w \<times> Job \<times> error"
  st_Heartbeat :: "'w \<Rightarrow> Lease \<Rightarrow> duration \<Rightarrow> 'w \<times> error"
  st_Complete :: "'w \<Rightarrow> Lease \<Rightarrow> 'w \<times> Job \<times> error"
  st_Fail :: "'w \<Rightarrow> Lease \<Rightarrow> Failure \<Rightarrow> 'w \<times> Job \<times> error"

text \<open>A handler call returns an error or nil, or unwinds by a panic of any value.\<close>

datatype handler_outcome = HandlerReturned error | HandlerPanicked

type_synonym 'w Handler = "'w \<Rightarrow> Job \<Rightarrow> 'w \<times> handler_outcome"

text \<open>\<open>Worker_Store\<close> is the interface value \<^verbatim>\<open>nilLike\<close> inspects; \<open>Worker_Ops\<close> are its methods.\<close>

record 'w Worker =
  Worker_Store :: go_any
  Worker_Ops :: "'w Store"
  Worker_Queue :: string
  Worker_WorkerID :: string
  Worker_LeaseDuration :: duration
  Worker_HeartbeatInterval :: duration
  Worker_PollInterval :: duration
  Worker_RetryPolicy :: RetryPolicy
  Worker_Handler :: "'w Handler option"

section \<open>boundedFailure\<close>

text \<open>The UTF-8 bytes of the ellipsis U+2026 and of the replacement character U+FFFD.\<close>

definition ellipsis :: string where
  "ellipsis = [CHR 0xE2, CHR 0x80, CHR 0xA6]"

definition replacement :: string where
  "replacement = [CHR 0xEF, CHR 0xBF, CHR 0xBD]"

text \<open>\<^verbatim>\<open>for end < len(message) && end > 0 && !utf8.RuneStart(message[end]) { end-- }\<close>.\<close>

fun rune_boundary :: "string \<Rightarrow> nat \<Rightarrow> nat" where
  "rune_boundary message 0 = 0"
| "rune_boundary message (Suc e) =
     (if Suc e < length message \<and> \<not> RuneStart (message ! Suc e) then rune_boundary message e else Suc e)"

definition boundedFailure :: "go_error \<Rightarrow> string" where
  "boundedFailure err =
     (let source = error_text err;
          truncated = length source > MaxFailureBytes;
          sourceLimit = (if truncated then MaxFailureBytes - length ellipsis else MaxFailureBytes);
          source = take (min (length source) sourceLimit) source;
          message = ReplaceAll (ToValidUTF8 source replacement) (CHR 0x00) replacement
      in if \<not> truncated \<and> length message \<le> MaxFailureBytes then message
         else take (rune_boundary message (min (length message) (MaxFailureBytes - length ellipsis))) message @ ellipsis)"

section \<open>Validation\<close>

definition worker_claim :: "'w Worker \<Rightarrow> ClaimRequest" where
  "worker_claim worker = \<lparr>Claim_Queue = Worker_Queue worker, Claim_Worker = Worker_WorkerID worker,
     Claim_LeaseDuration = Worker_LeaseDuration worker\<rparr>"

definition validate :: "'w Worker \<Rightarrow> error" where
  "validate worker =
     (if nilLike (Worker_Store worker) \<or> Worker_Handler worker = None
      then Some (invalid ''worker store and handler are required'')
      else case validateClaim (worker_claim worker) of
        Some err \<Rightarrow> Some err
      | None \<Rightarrow>
      if Worker_HeartbeatInterval worker \<le> 0 \<or>
        Worker_HeartbeatInterval worker > Worker_LeaseDuration worker sdiv 2
      then Some (invalid ''heartbeat interval must be positive and no more than half the lease'')
      else if Worker_PollInterval worker \<le> 0 \<or> Worker_PollInterval worker > minute
      then Some (invalid ''poll interval must be between zero and one minute'')
      else case Delay (Worker_RetryPolicy worker) 1 of
        Inl err \<Rightarrow> Some err
      | Inr _ \<Rightarrow>
      if Policy_Initial (Worker_RetryPolicy worker) smod microsecond \<noteq> 0 \<or>
        Policy_Maximum (Worker_RetryPolicy worker) smod microsecond \<noteq> 0
      then Some (invalid ''retry policy must use PostgreSQL microsecond precision'')
      else None)"

text \<open>The inner error is formatted with \<^verbatim>\<open>%v\<close>: its text is kept, its identity is not.\<close>

definition validateClaimedAttempt :: "Job \<Rightarrow> string \<Rightarrow> string \<Rightarrow> error" where
  "validateClaimedAttempt job queue workerID =
     (if Job_Queue job \<noteq> queue \<or> Job_LeaseOwner job \<noteq> workerID
      then Some (invalid ''store returned an invalid claimed job'')
      else case validateStoredJob job of
        Some err \<Rightarrow> Some (invalid (''store returned an invalid claimed job: '' @ error_text err))
      | None \<Rightarrow> None)"

section \<open>One attempt\<close>

text \<open>
  One iteration of the heartbeat goroutine's \<^verbatim>\<open>select\<close>: the case it takes, for
  \<^verbatim>\<open>ctx.Done()\<close> with the value of \<^verbatim>\<open>ctx.Err()\<close>. The loop over a finite list of
  choices either returns or is still \<open>Beating\<close>.
\<close>

datatype select = SelStop | SelDone go_error | SelTick

datatype heartbeat_result = Beating | HeartbeatReturned error

fun heartbeat :: "'w Store \<Rightarrow> duration \<Rightarrow> Lease \<Rightarrow> select list \<Rightarrow> 'w \<Rightarrow> 'w \<times> heartbeat_result" where
  "heartbeat st d lease [] w = (w, Beating)"
| "heartbeat st d lease (SelStop # _) w = (w, HeartbeatReturned None)"
| "heartbeat st d lease (SelDone err # _) w = (w, HeartbeatReturned (Some err))"
| "heartbeat st d lease (SelTick # choices) w =
     (case st_Heartbeat st w lease d of
        (w', Some err) \<Rightarrow> (w', HeartbeatReturned (Some err))
      | (w', None) \<Rightarrow> heartbeat st d lease choices w')"

definition callHandler :: "handler_outcome \<Rightarrow> error" where
  "callHandler outcome =
     (case outcome of HandlerReturned err \<Rightarrow> err | HandlerPanicked \<Rightarrow> Some (Sentinel errHandlerPanicked))"

text \<open>
  \<open>at_during\<close> are the select choices before the handler's effect, \<open>at_after\<close> those from
  there to the closed stop channel; \<open>at_finished_first\<close> says that \<^verbatim>\<open>cancel(errHandlerFinished)\<close>
  came before the heartbeat goroutine's \<^verbatim>\<open>cancel(err)\<close>, so it set the cause; \<open>at_ctx_err\<close>
  is \<^verbatim>\<open>ctx.Err()\<close> after the join.
\<close>

record attempt =
  at_during :: "select list"
  at_after :: "select list"
  at_finished_first :: bool
  at_ctx_err :: error

text \<open>Running the goroutine beside the handler until the join \<^verbatim>\<open><-heartbeatResult\<close>.\<close>

definition coordinate ::
  "'w Worker \<Rightarrow> attempt \<Rightarrow> 'w Handler \<Rightarrow> Job \<Rightarrow> 'w \<Rightarrow> 'w \<times> error \<times> error" where
  "coordinate worker at handler job w =
     (let st = Worker_Ops worker; d = Worker_LeaseDuration worker;
          (w1, h1) = heartbeat st d (Job_Lease job) (at_during at) w;
          (w2, outcome) = handler w1 job;
          (w3, h2) = (case h1 of
             HeartbeatReturned err \<Rightarrow> (w2, HeartbeatReturned err)
           | Beating \<Rightarrow> heartbeat st d (Job_Lease job) (at_after at @ [SelStop]) w2)
      in (w3, callHandler outcome, case h2 of HeartbeatReturned err \<Rightarrow> err | Beating \<Rightarrow> None))"

text \<open>\<^verbatim>\<open>context.Cause(attemptContext)\<close> when the parent context is still alive.\<close>

definition attempt_cause :: "attempt \<Rightarrow> error \<Rightarrow> error" where
  "attempt_cause at heartbeatErr =
     (if at_finished_first at \<or> heartbeatErr = None then Some (Sentinel errHandlerFinished) else heartbeatErr)"

definition acknowledge :: "Lease \<Rightarrow> string \<Rightarrow> 'w \<times> Job \<times> error \<Rightarrow> 'w \<times> error" where
  "acknowledge lease what result =
     (case result of
        (w', job, err) \<Rightarrow>
          (w', case err of
             None \<Rightarrow> None
           | Some e \<Rightarrow>
               if errors_Is e ErrCommitOutcomeUnknown then Some (LeaseReconciliationError job lease e)
               else if errors_Is e ErrCanceled then None
               else Some (errorf_wrap what e)))"

text \<open>
  What follows the join: \<open>ctxErr\<close> is \<^verbatim>\<open>ctx.Err()\<close> and \<open>cause\<close> is
  \<^verbatim>\<open>context.Cause(attemptContext)\<close> as the code reads them there.
\<close>

definition conclude :: "'w Worker \<Rightarrow> Job \<Rightarrow> error \<Rightarrow> error \<Rightarrow> error \<Rightarrow> error \<Rightarrow> 'w \<Rightarrow> 'w \<times> error" where
  "conclude worker job ctxErr cause handlerErr heartbeatErr w1 =
     (let st = Worker_Ops worker; lease = Job_Lease job;
          stoppedAfterHandler = Is heartbeatErr context_Canceled \<and> Is cause errHandlerFinished
      in if Is heartbeatErr ErrCommitOutcomeUnknown
         then (w1, map_option (LeaseReconciliationError job lease) heartbeatErr)
         else if ctxErr \<noteq> None then (w1, ctxErr)
         else if heartbeatErr \<noteq> None \<and> \<not> stoppedAfterHandler
         then (w1, if Is heartbeatErr ErrCanceled then None
                   else map_option (errorf_wrap ''heartbeat worker job'') heartbeatErr)
         else case handlerErr of
           None \<Rightarrow> acknowledge lease ''complete worker job'' (st_Complete st w1 lease)
         | Some e \<Rightarrow>
             (let permanent = IsPermanent (Some e)
              in case (if permanent then Inr 0 else Delay (Worker_RetryPolicy worker) (Job_Attempts job)) of
                   Inl err \<Rightarrow> (w1, Some err)
                 | Inr delay \<Rightarrow>
                     acknowledge lease ''fail worker job''
                       (st_Fail st w1 lease \<lparr>Failure_Message = boundedFailure e, Failure_RetryAfter = delay,
                          Failure_Permanent = permanent\<rparr>)))"

definition runAttempt :: "'w Worker \<Rightarrow> attempt \<Rightarrow> 'w Handler \<Rightarrow> Job \<Rightarrow> 'w \<Rightarrow> 'w \<times> error" where
  "runAttempt worker at handler job w =
     (let (w1, handlerErr, heartbeatErr) = coordinate worker at handler job w
      in conclude worker job (at_ctx_err at) (attempt_cause at heartbeatErr) handlerErr heartbeatErr w1)"

section \<open>The loop\<close>

text \<open>The select of \<^verbatim>\<open>waitContext\<close>: the timer, or the context with its error.\<close>

datatype wait = TimerFired | WaitDone go_error

definition waitContext :: "wait \<Rightarrow> error" where
  "waitContext choice = (case choice of TimerFired \<Rightarrow> None | WaitDone err \<Rightarrow> Some err)"

record cycle =
  cy_ctx_err :: error
  cy_wait :: wait
  cy_attempt :: attempt

text \<open>
  One iteration: either \<^verbatim>\<open>Run\<close> returns, or it goes on.
\<close>

definition run_cycle :: "'w Worker \<Rightarrow> 'w Handler \<Rightarrow> cycle \<Rightarrow> 'w \<Rightarrow> 'w \<times> error" where
  "run_cycle worker handler cy w =
     (case cy_ctx_err cy of
        Some err \<Rightarrow> (w, Some err)
      | None \<Rightarrow>
         (case st_Claim (Worker_Ops worker) w (worker_claim worker) of
            (w1, job, err) \<Rightarrow>
              if Is err ErrCommitOutcomeUnknown
              then (w1, if Job_ID job \<noteq> '''' then map_option (ClaimReconciliationError job) err
                        else map_option (errorf_wrap ''claim worker job'') err)
              else if Is err ErrNoJob then (w1, waitContext (cy_wait cy))
              else if err \<noteq> None then (w1, map_option (errorf_wrap ''claim worker job'') err)
              else case validateClaimedAttempt job (Worker_Queue worker) (Worker_WorkerID worker) of
                Some err \<Rightarrow> (w1, Some err)
              | None \<Rightarrow> runAttempt worker (cy_attempt cy) handler job w1))"

text \<open>
  \<^verbatim>\<open>Run\<close> on a finite list of iterations; \<^const>\<open>None\<close> in the second component means that
  it has not returned within them. It never returns nil.
\<close>

fun run_loop :: "'w Worker \<Rightarrow> 'w Handler \<Rightarrow> cycle list \<Rightarrow> 'w \<Rightarrow> 'w \<times> error" where
  "run_loop worker handler [] w = (w, None)"
| "run_loop worker handler (cy # cycles) w =
     (case run_cycle worker handler cy w of
        (w', Some err) \<Rightarrow> (w', Some err)
      | (w', None) \<Rightarrow> run_loop worker handler cycles w')"

definition Run :: "'w Worker \<Rightarrow> ctx \<Rightarrow> cycle list \<Rightarrow> 'w \<Rightarrow> 'w \<times> error" where
  "Run worker ctx cycles w =
     (if ctx = NilInterface then (w, Some (invalid ''context is required''))
      else case validate worker of
        Some err \<Rightarrow> (w, Some err)
      | None \<Rightarrow>
         (case Worker_Handler worker of
            Some handler \<Rightarrow> run_loop worker handler cycles w
          | None \<Rightarrow> (w, None)))"

section \<open>What is recorded of a failure\<close>

lemma clean_marks [simp]: "clean_text ellipsis" "clean_text replacement"
  by (simp_all add: clean_text_def has_nul_def ellipsis_def replacement_def ValidString.simps rune_size_def
      first_byte_def ord_def RuneStart_def)

lemma rune_boundary_le: "rune_boundary m e \<le> e"
  by (induction e) auto

lemma rune_boundary_start:
  "rune_boundary m e = 0 \<or> length m \<le> rune_boundary m e \<or> RuneStart (m ! rune_boundary m e)"
  by (induction e) auto

lemma clean_text_boundary:
  assumes "clean_text m"
  shows "clean_text (take (rune_boundary m e) m)"
proof (cases "rune_boundary m e = 0")
  case False
  then have "ValidString (take (rune_boundary m e) m)"
    using assms rune_boundary_start [of m e] by (intro ValidString_take) (auto simp: clean_text_def)
  with assms show ?thesis by (auto simp: clean_text_def has_nul_def dest: in_set_takeD)
qed simp

lemma boundedFailure_clean: "clean_text (boundedFailure e)"
proof -
  have "clean_text (ReplaceAll (ToValidUTF8 s replacement) (CHR 0x00) replacement)" for s
    using ReplaceAll_NUL_clean [OF ToValidUTF8_valid] clean_marks(2) by (simp add: clean_text_def)
  then show ?thesis
    by (simp add: boundedFailure_def Let_def clean_text_append clean_text_boundary)
qed

lemma boundedFailure_length: "length (boundedFailure e) \<le> 4096"
proof -
  have "length (take (rune_boundary m (min (length m) (MaxFailureBytes - length ellipsis))) m @ ellipsis) \<le> 4096" for m
    using rune_boundary_le [of m "min (length m) (MaxFailureBytes - length ellipsis)"]
    by (simp add: MaxFailureBytes_def ellipsis_def)
  then show ?thesis by (simp add: boundedFailure_def Let_def MaxFailureBytes_def)
qed

text \<open>
  C32. Whatever text a handler's error carries, the message recorded is at most 4096 bytes
  of valid UTF-8 without NUL, so the store and the schema accept it; and an error text that
  already has this form is recorded verbatim.
\<close>

theorem boundedFailure_admissible:
  "length (boundedFailure e) \<le> MaxFailureBytes \<and> ValidString (boundedFailure e) \<and> \<not> has_nul (boundedFailure e) \<and>
   (length (error_text e) \<le> MaxFailureBytes \<and> ValidString (error_text e) \<and> \<not> has_nul (error_text e) \<longrightarrow>
      boundedFailure e = error_text e)"
proof -
  have "boundedFailure e = error_text e"
    if "length (error_text e) \<le> MaxFailureBytes" "ValidString (error_text e)" "\<not> has_nul (error_text e)"
  proof -
    have "take (min (length (error_text e)) MaxFailureBytes) (error_text e) = error_text e" using that(1) by simp
    then show ?thesis
      using that ReplaceAll_id [of "CHR 0x00" "error_text e" replacement]
      by (simp add: boundedFailure_def Let_def ToValidUTF8_id has_nul_def)
  qed
  then show ?thesis
    using boundedFailure_length [of e] boundedFailure_clean [of e] by (simp add: clean_text_def MaxFailureBytes_def)
qed

theorem boundedFailure_admissible_witness:
  "boundedFailure (Sentinel errHandlerPanicked) = ''handler panicked''"
proof -
  have "clean_text ''handler panicked''" by (rule clean_text_ascii) (simp add: ord_def)
  then show ?thesis
    using boundedFailure_admissible [of "Sentinel errHandlerPanicked"] by (simp add: clean_text_def MaxFailureBytes_def)
qed

text \<open>Every failure the worker reports passes \<^verbatim>\<open>validateFailure\<close>.\<close>

lemma validate_None:
  assumes "validate worker = None"
  shows "validateClaim (worker_claim worker) = None" "Worker_Handler worker \<noteq> None"
    "\<not> policy_invalid (Worker_RetryPolicy worker) 1"
    "1000 dvd Policy_Initial (Worker_RetryPolicy worker)" "1000 dvd Policy_Maximum (Worker_RetryPolicy worker)"
    "0 < Worker_HeartbeatInterval worker" "2 * Worker_HeartbeatInterval worker \<le> Worker_LeaseDuration worker"
proof -
  have v: "validateClaim (worker_claim worker) = None" "Worker_Handler worker \<noteq> None"
    "0 < Worker_HeartbeatInterval worker"
    "Worker_HeartbeatInterval worker \<le> Worker_LeaseDuration worker sdiv 2"
    and d: "\<exists>x. Delay (Worker_RetryPolicy worker) 1 = Inr x"
    and m: "Policy_Initial (Worker_RetryPolicy worker) smod microsecond = 0"
      "Policy_Maximum (Worker_RetryPolicy worker) smod microsecond = 0"
    using assms by (auto simp: validate_def split: if_splits option.splits sum.splits)
  show "validateClaim (worker_claim worker) = None" "Worker_Handler worker \<noteq> None" "0 < Worker_HeartbeatInterval worker"
    using v by simp_all
  show p: "\<not> policy_invalid (Worker_RetryPolicy worker) 1" using d Delay_Inr_iff by blast
  then show "1000 dvd Policy_Initial (Worker_RetryPolicy worker)" "1000 dvd Policy_Maximum (Worker_RetryPolicy worker)"
    using m by (simp_all add: policy_invalid_def microsecond_def smod_pos mod_eq_0_iff_dvd)
  have "0 \<le> Worker_LeaseDuration worker" using v(1) by (simp add: validateClaim_None worker_claim_def)
  then show "2 * Worker_HeartbeatInterval worker \<le> Worker_LeaseDuration worker" using v(4) by (simp add: sdiv_pos)
qed

lemma worker_failure_valid:
  assumes "validate worker = None"
    "(if permanent then Inr 0 else Delay (Worker_RetryPolicy worker) n) = Inr delay"
  shows "validateFailure \<lparr>Failure_Message = boundedFailure e, Failure_RetryAfter = delay, Failure_Permanent = permanent\<rparr> = None"
proof -
  have "0 \<le> delay \<and> delay \<le> 86400000000000 \<and> delay mod 1000 = 0 \<and> (permanent \<longrightarrow> delay = 0)"
  proof (cases permanent)
    case False
    then have d: "Delay (Worker_RetryPolicy worker) n = Inr delay" using assms(2) by simp
    show ?thesis
      using Delay_bounds [OF d] Delay_microseconds [OF d validate_None(4,5) [OF assms(1)]]
      False by (simp add: go_defs mod_eq_0_iff_dvd)
  qed (use assms(2) in simp)
  then show ?thesis using boundedFailure_length boundedFailure_clean by (simp add: validateFailure_None)
qed

section \<open>Observing a worker\<close>

text \<open>
  Any worker can be run over a store and a handler that keep a log of the calls they
  receive and of what they answered.
\<close>

datatype observed =
  Claimed_obs ClaimRequest Job error
| Heartbeat_obs Lease duration error
| Complete_obs Lease Job error
| Fail_obs Lease Failure Job error
| Handled_obs Job handler_outcome

definition recording :: "'w Store \<Rightarrow> ('w \<times> observed list) Store" where
  "recording st =
     \<lparr>st_Claim = (\<lambda>(w, log) request. case st_Claim st w request of
        (w', job, err) \<Rightarrow> ((w', log @ [Claimed_obs request job err]), job, err)),
      st_Heartbeat = (\<lambda>(w, log) lease d. case st_Heartbeat st w lease d of
        (w', err) \<Rightarrow> ((w', log @ [Heartbeat_obs lease d err]), err)),
      st_Complete = (\<lambda>(w, log) lease. case st_Complete st w lease of
        (w', job, err) \<Rightarrow> ((w', log @ [Complete_obs lease job err]), job, err)),
      st_Fail = (\<lambda>(w, log) lease failure. case st_Fail st w lease failure of
        (w', job, err) \<Rightarrow> ((w', log @ [Fail_obs lease failure job err]), job, err))\<rparr>"

definition recording_handler :: "'w Handler \<Rightarrow> ('w \<times> observed list) Handler" where
  "recording_handler handler = (\<lambda>(w, log) job. case handler w job of
     (w', outcome) \<Rightarrow> ((w', log @ [Handled_obs job outcome]), outcome))"

definition recorded :: "'w Worker \<Rightarrow> ('w \<times> observed list) Worker" where
  "recorded worker =
     \<lparr>Worker_Store = Worker_Store worker, Worker_Ops = recording (Worker_Ops worker),
      Worker_Queue = Worker_Queue worker, Worker_WorkerID = Worker_WorkerID worker,
      Worker_LeaseDuration = Worker_LeaseDuration worker,
      Worker_HeartbeatInterval = Worker_HeartbeatInterval worker,
      Worker_PollInterval = Worker_PollInterval worker, Worker_RetryPolicy = Worker_RetryPolicy worker,
      Worker_Handler = map_option recording_handler (Worker_Handler worker)\<rparr>"

lemma recorded_simps [simp]:
  "Worker_Ops (recorded worker) = recording (Worker_Ops worker)"
  "Worker_LeaseDuration (recorded worker) = Worker_LeaseDuration worker"
  "Worker_RetryPolicy (recorded worker) = Worker_RetryPolicy worker"
  "Worker_Queue (recorded worker) = Worker_Queue worker"
  "Worker_WorkerID (recorded worker) = Worker_WorkerID worker"
  "worker_claim (recorded worker) = worker_claim worker"
  "Worker_Store (recorded worker) = Worker_Store worker"
  "Worker_HeartbeatInterval (recorded worker) = Worker_HeartbeatInterval worker"
  "Worker_PollInterval (recorded worker) = Worker_PollInterval worker"
  "Worker_Handler (recorded worker) = map_option recording_handler (Worker_Handler worker)"
  by (simp_all add: recorded_def worker_claim_def)

lemma validate_recorded [simp]: "validate (recorded worker) = validate worker"
  by (simp add: validate_def cong: if_cong option.case_cong sum.case_cong)

definition is_ack :: "observed \<Rightarrow> bool" where
  "is_ack ob = (case ob of Complete_obs _ _ _ \<Rightarrow> True | Fail_obs _ _ _ _ \<Rightarrow> True | _ \<Rightarrow> False)"

definition is_beat :: "Lease \<Rightarrow> duration \<Rightarrow> observed \<Rightarrow> bool" where
  "is_beat lease d ob = (\<exists>err. ob = Heartbeat_obs lease d err)"

lemma is_beat_Heartbeat_obs [simp]: "is_beat lease d (Heartbeat_obs lease d err)"
  by (simp add: is_beat_def)

lemma heartbeat_recorded:
  assumes "heartbeat (recording st) d lease choices (w, log) = ((w', log'), res)"
  shows "\<exists>beats. log' = log @ beats \<and> list_all (is_beat lease d) beats \<and>
    (\<forall>e. Heartbeat_obs lease d (Some e) \<in> set beats \<longrightarrow> res = HeartbeatReturned (Some e))"
  using assms
proof (induction choices arbitrary: w log)
  case (Cons c choices)
  show ?case
  proof (cases c)
    case SelTick
    obtain w1 err where h: "st_Heartbeat st w lease d = (w1, err)" by fastforce
    show ?thesis
    proof (cases err)
      case None
      with Cons.prems SelTick h
      have "heartbeat (recording st) d lease choices (w1, log @ [Heartbeat_obs lease d None]) = ((w', log'), res)"
        by (simp add: recording_def)
      from Cons.IH [OF this] obtain beats where "log' = (log @ [Heartbeat_obs lease d None]) @ beats"
        "list_all (is_beat lease d) beats"
        "\<forall>e. Heartbeat_obs lease d (Some e) \<in> set beats \<longrightarrow> res = HeartbeatReturned (Some e)" by blast
      then show ?thesis by (intro exI [of _ "Heartbeat_obs lease d None # beats"]) simp
    next
      case (Some e)
      with Cons.prems SelTick h show ?thesis
        by (intro exI [of _ "[Heartbeat_obs lease d (Some e)]"]) (auto simp: recording_def)
    qed
  qed (use Cons.prems in \<open>auto intro!: exI [of _ "[]"]\<close>)
qed simp

lemma coordinate_recorded:
  assumes "coordinate (recorded worker) at (recording_handler handler) job (w, log) = ((w', log'), handlerErr, heartbeatErr)"
  obtains pre outcome post where "log' = log @ pre @ Handled_obs job outcome # post"
    "list_all (is_beat (Job_Lease job) (Worker_LeaseDuration worker)) (pre @ post)" "handlerErr = callHandler outcome"
    "\<And>e. Heartbeat_obs (Job_Lease job) (Worker_LeaseDuration worker) (Some e) \<in> set (pre @ post) \<Longrightarrow> heartbeatErr = Some e"
proof -
  let ?l = "Job_Lease job" and ?d = "Worker_LeaseDuration worker" and ?st = "recording (Worker_Ops worker)"
  obtain w1 log1 h1 where h1: "heartbeat ?st ?d ?l (at_during at) (w, log) = ((w1, log1), h1)" by (metis surj_pair)
  obtain w2 outcome where h: "handler w1 job = (w2, outcome)" by fastforce
  let ?log2 = "log1 @ [Handled_obs job outcome]"
  from heartbeat_recorded [OF h1] obtain pre where pre: "log1 = log @ pre" "list_all (is_beat ?l ?d) pre"
    "\<forall>e. Heartbeat_obs ?l ?d (Some e) \<in> set pre \<longrightarrow> h1 = HeartbeatReturned (Some e)" by blast
  show ?thesis
  proof (cases h1)
    case (HeartbeatReturned err)
    with assms h1 h have "log' = ?log2" "handlerErr = callHandler outcome" "heartbeatErr = err"
      by (auto simp: coordinate_def recording_handler_def)
    with pre HeartbeatReturned show ?thesis by (intro that [of pre outcome "[]"]) auto
  next
    case Beating
    obtain w3 log3 h2 where h2: "heartbeat ?st ?d ?l (at_after at @ [SelStop]) (w2, ?log2) = ((w3, log3), h2)"
      by (metis surj_pair)
    from heartbeat_recorded [OF this] obtain post where post: "log3 = ?log2 @ post" "list_all (is_beat ?l ?d) post"
      "\<forall>e. Heartbeat_obs ?l ?d (Some e) \<in> set post \<longrightarrow> h2 = HeartbeatReturned (Some e)" by blast
    from assms h1 h Beating h2 have "log' = log3" "handlerErr = callHandler outcome"
      "heartbeatErr = (case h2 of HeartbeatReturned err \<Rightarrow> err | Beating \<Rightarrow> None)"
      by (auto simp: coordinate_def recording_handler_def)
    with pre post Beating show ?thesis by (intro that [of pre outcome post]) auto
  qed
qed

section \<open>One attempt, observed\<close>

definition ack_error :: "Lease \<Rightarrow> string \<Rightarrow> Job \<Rightarrow> error \<Rightarrow> error" where
  "ack_error lease what job err = snd (acknowledge lease what ((), job, err))"

lemma acknowledge_eq: "acknowledge lease what (w, job, err) = (w, ack_error lease what job err)"
  by (simp add: acknowledge_def ack_error_def)

lemma ack_error_unknown:
  "Is err ErrCommitOutcomeUnknown \<Longrightarrow>
   ack_error lease what job err = map_option (LeaseReconciliationError job lease) err"
  by (cases err) (simp_all add: ack_error_def acknowledge_def)

text \<open>The failure the worker reports for a handler error.\<close>

definition reported_failure :: "'w Worker \<Rightarrow> Job \<Rightarrow> go_error \<Rightarrow> Failure \<Rightarrow> bool" where
  "reported_failure worker job e failure \<longleftrightarrow>
     Failure_Message failure = boundedFailure e \<and> Failure_Permanent failure = IsPermanent (Some e) \<and>
     (if IsPermanent (Some e) then Failure_RetryAfter failure = 0
      else Delay (Worker_RetryPolicy worker) (Job_Attempts job) = Inr (Failure_RetryAfter failure))"

lemma runAttempt_recorded:
  assumes "runAttempt (recorded worker) at (recording_handler handler) job (w, log) = ((w', log'), err)"
  obtains (silent) pre outcome post heartbeatErr where
      "log' = log @ pre @ Handled_obs job outcome # post"
      "list_all (is_beat (Job_Lease job) (Worker_LeaseDuration worker)) (pre @ post)"
      "\<And>e. Heartbeat_obs (Job_Lease job) (Worker_LeaseDuration worker) (Some e) \<in> set (pre @ post) \<Longrightarrow> heartbeatErr = Some e"
      "Is heartbeatErr ErrCommitOutcomeUnknown \<Longrightarrow> err = map_option (LeaseReconciliationError job (Job_Lease job)) heartbeatErr"
  | (acknowledged) pre outcome post ack heartbeatErr where
      "log' = log @ pre @ Handled_obs job outcome # post @ [ack]"
      "list_all (is_beat (Job_Lease job) (Worker_LeaseDuration worker)) (pre @ post)"
      "\<And>e. Heartbeat_obs (Job_Lease job) (Worker_LeaseDuration worker) (Some e) \<in> set (pre @ post) \<Longrightarrow> heartbeatErr = Some e"
      "\<not> Is heartbeatErr ErrCommitOutcomeUnknown" "at_ctx_err at = None"
      "heartbeatErr \<noteq> None \<longrightarrow> Is heartbeatErr context_Canceled \<and> Is (attempt_cause at heartbeatErr) errHandlerFinished"
      "(\<exists>j e. ack = Complete_obs (Job_Lease job) j e \<and> callHandler outcome = None \<and>
          err = ack_error (Job_Lease job) ''complete worker job'' j e) \<or>
       (\<exists>f j e x. ack = Fail_obs (Job_Lease job) f j e \<and> callHandler outcome = Some x \<and>
          reported_failure worker job x f \<and> err = ack_error (Job_Lease job) ''fail worker job'' j e)"
      "heartbeatErr = snd (snd (coordinate (recorded worker) at (recording_handler handler) job (w, log)))"
proof -
  obtain w1 log1 he hb where c: "coordinate (recorded worker) at (recording_handler handler) job (w, log) = ((w1, log1), he, hb)"
    by (metis surj_pair)
  from coordinate_recorded [OF c] obtain pre outcome post where
    l: "log1 = log @ pre @ Handled_obs job outcome # post"
    "list_all (is_beat (Job_Lease job) (Worker_LeaseDuration worker)) (pre @ post)" "he = callHandler outcome"
    "\<And>e. Heartbeat_obs (Job_Lease job) (Worker_LeaseDuration worker) (Some e) \<in> set (pre @ post) \<Longrightarrow> hb = Some e" by metis
  note run = assms [unfolded runAttempt_def conclude_def Let_def c split_conv recorded_simps]
  show ?thesis
  proof (cases "Is hb ErrCommitOutcomeUnknown \<or> at_ctx_err at \<noteq> None \<or>
      (hb \<noteq> None \<and> \<not> (Is hb context_Canceled \<and> Is (attempt_cause at hb) errHandlerFinished))")
    case True
    then have "log' = log1" "Is hb ErrCommitOutcomeUnknown \<Longrightarrow> err = map_option (LeaseReconciliationError job (Job_Lease job)) hb"
      using run by (auto split: if_splits)
    with l silent show ?thesis by blast
  next
    case False
    then have go: "\<not> Is hb ErrCommitOutcomeUnknown" "at_ctx_err at = None"
      "hb \<noteq> None \<longrightarrow> Is hb context_Canceled \<and> Is (attempt_cause at hb) errHandlerFinished" by auto
    show ?thesis
    proof (cases he)
      case None
      obtain w2 j e where s: "st_Complete (Worker_Ops worker) w1 (Job_Lease job) = (w2, j, e)" by (metis surj_pair)
      from run go None s have "log' = log1 @ [Complete_obs (Job_Lease job) j e]"
        "err = ack_error (Job_Lease job) ''complete worker job'' j e"
        by (auto simp: recording_def acknowledge_eq)
      with l go None c show ?thesis by (intro acknowledged [of pre outcome post _ hb]) auto
    next
      case (Some x)
      show ?thesis
      proof (cases "if IsPermanent (Some x) then Inr 0 else Delay (Worker_RetryPolicy worker) (Job_Attempts job)")
        case (Inl bad)
        with run go Some have "log' = log1" by (auto split: if_splits)
        with l go(1) silent show ?thesis by blast
      next
        case (Inr delay)
        let ?f = "\<lparr>Failure_Message = boundedFailure x, Failure_RetryAfter = delay, Failure_Permanent = IsPermanent (Some x)\<rparr>"
        obtain w2 j e where s: "st_Fail (Worker_Ops worker) w1 (Job_Lease job) ?f = (w2, j, e)" by (metis surj_pair)
        from run go Some Inr s have "log' = log1 @ [Fail_obs (Job_Lease job) ?f j e]"
          "err = ack_error (Job_Lease job) ''fail worker job'' j e"
          by (auto simp: recording_def acknowledge_eq)
        moreover have "reported_failure worker job x ?f"
          using Inr by (auto simp: reported_failure_def split: if_splits)
        moreover have "callHandler outcome = Some x" using l(3) Some by simp
        moreover have "log1 @ [ob] = log @ pre @ Handled_obs job outcome # post @ [ob]" for ob using l(1) by simp
        ultimately show ?thesis
          by (intro acknowledged [of pre outcome post "Fail_obs (Job_Lease job) ?f j e" hb])
            (use l(2,4) go c in \<open>simp_all only: snd_conv, blast+\<close>)
      qed
    qed
  qed
qed

definition is_handled :: "observed \<Rightarrow> bool" where
  "is_handled ob = (case ob of Handled_obs _ _ \<Rightarrow> True | _ \<Rightarrow> False)"

definition obs_error :: "observed \<Rightarrow> error" where
  "obs_error ob = (case ob of Claimed_obs _ _ e \<Rightarrow> e | Heartbeat_obs _ _ e \<Rightarrow> e | Complete_obs _ _ e \<Rightarrow> e
     | Fail_obs _ _ _ e \<Rightarrow> e | Handled_obs _ _ \<Rightarrow> None)"

lemma obs_simps [simp]:
  "is_ack (Complete_obs l j e)" "is_ack (Fail_obs l f j e)" "\<not> is_ack (Heartbeat_obs l d e)"
  "\<not> is_ack (Handled_obs j out)" "\<not> is_ack (Claimed_obs c j e)"
  "is_handled (Handled_obs j out)" "\<not> is_handled (Heartbeat_obs l d e)" "\<not> is_handled (Complete_obs l j e)"
  "\<not> is_handled (Fail_obs l f j e)" "\<not> is_handled (Claimed_obs c j e)"
  "obs_error (Claimed_obs c j e) = e" "obs_error (Heartbeat_obs l d e) = e" "obs_error (Complete_obs l j e) = e"
  "obs_error (Fail_obs l f j e) = e" "obs_error (Handled_obs j out) = None"
  by (simp_all add: is_ack_def is_handled_def obs_error_def)

lemma beats_quiet:
  assumes "list_all (is_beat l d) beats"
  shows "filter is_ack beats = []" "filter is_handled beats = []"
    "Complete_obs l' j e \<notin> set beats" "Fail_obs l' f j e \<notin> set beats" "Handled_obs j out \<notin> set beats"
  using assms by (induction beats) (auto simp: is_beat_def)

lemma beats_error:
  "list_all (is_beat l d) beats \<Longrightarrow> ob \<in> set beats \<Longrightarrow> \<exists>e. ob = Heartbeat_obs l d e"
  by (auto simp: list_all_iff is_beat_def)

lemma callHandler_None [simp]: "callHandler outcome = None \<longleftrightarrow> outcome = HandlerReturned None"
  by (cases outcome) (simp_all add: callHandler_def)

lemma reported_failure_valid:
  assumes "validate worker = None" "reported_failure worker job x f"
  shows "validateFailure f = None"
proof -
  have "(if Failure_Permanent f then Inr 0 else Delay (Worker_RetryPolicy worker) (Job_Attempts job)) =
      Inr (Failure_RetryAfter f)"
    using assms(2) by (auto simp: reported_failure_def split: if_splits)
  from worker_failure_valid [OF assms(1) this, of x] assms(2) show ?thesis
    by (cases f) (simp add: reported_failure_def)
qed

text \<open>
  The heartbeat goroutine's error that does not speak against an acknowledgement: it was
  stopped because the handler had finished, by a cancellation whose cause is
  \<^verbatim>\<open>errHandlerFinished\<close>.
\<close>

definition stopped_by_finish :: "attempt \<Rightarrow> go_error \<Rightarrow> bool" where
  "stopped_by_finish at e \<longleftrightarrow>
     errors_Is e context_Canceled \<and> (at_finished_first at \<or> errors_Is e errHandlerFinished)"

text \<open>
  C8. One attempt, one honest acknowledgement. Whatever the store answers, the handler
  does and the scheduler chooses, an attempt calls the handler exactly once and sends at most
  one acknowledgement, for the job's own lease. It completes only after the handler
  returned nil, so never after a panic or an error; it fails only otherwise, and then with a
  \<^verbatim>\<open>Failure\<close> that passes validation. It sends none when the parent context has ended
  (the lease is left to expire), and none when a call of \<^verbatim>\<open>Heartbeat\<close> failed or the
  heartbeat goroutine ended with an error, \<^verbatim>\<open>context.Canceled\<close> included, unless that error
  is the cancellation by which the finished handler stopped the goroutine.
\<close>

theorem attempt_acknowledges_once:
  assumes "validate worker = None"
    "runAttempt (recorded worker) at (recording_handler handler) job (w, []) = ((w', log), err)"
  shows "length (filter is_handled log) = 1 \<and> length (filter is_ack log) \<le> 1 \<and>
    (\<forall>l j e. Complete_obs l j e \<in> set log \<longrightarrow>
      l = Job_Lease job \<and> Handled_obs job (HandlerReturned None) \<in> set log) \<and>
    (\<forall>l f j e. Fail_obs l f j e \<in> set log \<longrightarrow>
      l = Job_Lease job \<and> validateFailure f = None \<and> Handled_obs job (HandlerReturned None) \<notin> set log) \<and>
    (at_ctx_err at \<noteq> None \<longrightarrow> filter is_ack log = []) \<and>
    (\<forall>e. Heartbeat_obs (Job_Lease job) (Worker_LeaseDuration worker) (Some e) \<in> set log \<and>
      \<not> stopped_by_finish at e \<longrightarrow> filter is_ack log = []) \<and>
    (\<forall>e. snd (snd (coordinate (recorded worker) at (recording_handler handler) job (w, []))) = Some e \<and>
      \<not> stopped_by_finish at e \<longrightarrow> filter is_ack log = [])"
  using assms(2)
proof (cases rule: runAttempt_recorded)
  case (silent pre outcome post hb)
  have q: "list_all (is_beat (Job_Lease job) (Worker_LeaseDuration worker)) pre"
    "list_all (is_beat (Job_Lease job) (Worker_LeaseDuration worker)) post" using silent(2) by simp_all
  show ?thesis unfolding silent(1) using beats_quiet [OF q(1)] beats_quiet [OF q(2)] by simp
next
  case (acknowledged pre outcome post ack hb)
  have q: "list_all (is_beat (Job_Lease job) (Worker_LeaseDuration worker)) pre"
    "list_all (is_beat (Job_Lease job) (Worker_LeaseDuration worker)) post" using acknowledged(2) by simp_all
  have finish: "stopped_by_finish at e" if "hb = Some e" for e
    using acknowledged(6) that by (auto simp: stopped_by_finish_def attempt_cause_def split: if_splits)
  have hb: "stopped_by_finish at e"
    if "Heartbeat_obs (Job_Lease job) (Worker_LeaseDuration worker) (Some e) \<in> set pre \<or>
      Heartbeat_obs (Job_Lease job) (Worker_LeaseDuration worker) (Some e) \<in> set post" for e
    using acknowledged(3) [of e] that finish by simp
  note quiet = beats_quiet [OF q(1)] beats_quiet [OF q(2)]
  from acknowledged(7) show ?thesis
  proof (elim disjE exE conjE)
    fix j e assume "ack = Complete_obs (Job_Lease job) j e" "callHandler outcome = None"
    then show ?thesis
      unfolding acknowledged(1) acknowledged(8) [symmetric] using quiet acknowledged(5) hb finish by auto
  next
    fix f j e x assume a: "ack = Fail_obs (Job_Lease job) f j e" "callHandler outcome = Some x" "reported_failure worker job x f"
    have "outcome \<noteq> HandlerReturned None" using a(2) by (auto simp: callHandler_def)
    then show ?thesis
      unfolding acknowledged(1) acknowledged(8) [symmetric]
      using a(1) quiet acknowledged(5) hb finish reported_failure_valid [OF assms(1) a(3)] by auto
  qed
qed

text \<open>An unknown outcome of any call of the attempt surfaces, whatever was logged before.\<close>

lemma attempt_unknown:
  assumes "runAttempt (recorded worker) at (recording_handler handler) job (w, log) = ((w', log @ entries), err)"
    "ob \<in> set entries" "Is (obs_error ob) ErrCommitOutcomeUnknown"
  shows "\<exists>j e. err = Some (LeaseReconciliationError j (Job_Lease job) e) \<and> errors_Is e ErrCommitOutcomeUnknown"
proof -
  have beat: "\<exists>e. hb = Some e \<and> errors_Is e ErrCommitOutcomeUnknown"
    if "list_all (is_beat (Job_Lease job) (Worker_LeaseDuration worker)) beats" "ob \<in> set beats"
      "\<And>e. Heartbeat_obs (Job_Lease job) (Worker_LeaseDuration worker) (Some e) \<in> set beats \<Longrightarrow> hb = Some e" for beats hb
    using beats_error [OF that(1,2)] that(2,3) assms(3) by (auto simp: Is_def split: option.splits)
  from assms(1) show ?thesis
  proof (cases rule: runAttempt_recorded)
    case (silent pre outcome post hb)
    have "ob \<in> set (pre @ post)" using silent(1) assms(2,3) by auto
    from beat [OF silent(2) this silent(3)] silent(4) show ?thesis by auto
  next
    case (acknowledged pre outcome post ack hb)
    have "ob \<notin> set (pre @ post)" using beat [OF acknowledged(2) _ acknowledged(3)] acknowledged(4) by auto
    then have "ob = ack" using acknowledged(1) assms(2,3) by auto
    then show ?thesis
      using acknowledged(7) assms(3) by (auto simp: ack_error_unknown Is_def split: option.splits)
  qed
qed

text \<open>
  C23. An unknown commit outcome is never swallowed: when any heartbeat, completion or
  failure of the attempt answers with \<^verbatim>\<open>ErrCommitOutcomeUnknown\<close>, whatever other
  identities the same error carries, the attempt returns a \<^verbatim>\<open>LeaseReconciliationError\<close>
  with the affected lease, which still matches \<^verbatim>\<open>ErrCommitOutcomeUnknown\<close> and whose text
  is a constant that reveals neither job nor token.
\<close>

theorem attempt_unknown_reconciles:
  assumes "runAttempt (recorded worker) at (recording_handler handler) job (w, []) = ((w', log), err)"
    "ob \<in> set log" "Is (obs_error ob) ErrCommitOutcomeUnknown"
  shows "\<exists>j e. err = Some (LeaseReconciliationError j (Job_Lease job) e) \<and> Is err ErrCommitOutcomeUnknown \<and>
    map_option error_text err =
      Some ''worker job acknowledgement commit outcome is unknown; reconciliation required''"
  using attempt_unknown [of worker at handler job w "[]" w' log err ob] assms by auto

section \<open>A concrete worker\<close>

text \<open>
  A store that hands out one job, confirms heartbeats, and answers an acknowledgement with
  a given error; a handler that returns a given outcome.
\<close>

definition sample_store :: "Job \<Rightarrow> error \<Rightarrow> unit Store" where
  "sample_store job err =
     \<lparr>st_Claim = (\<lambda>w request. (w, job, None)), st_Heartbeat = (\<lambda>w lease d. (w, None)),
      st_Complete = (\<lambda>w lease. (w, job, err)), st_Fail = (\<lambda>w lease failure. (w, job, err))\<rparr>"

definition sample_worker :: "error \<Rightarrow> handler_outcome \<Rightarrow> unit Worker" where
  "sample_worker err outcome =
     \<lparr>Worker_Store = Boxed Pointer False, Worker_Ops = sample_store (job_of_row sample_running) err,
      Worker_Queue = ''q'', Worker_WorkerID = ''w'', Worker_LeaseDuration = 2000000000,
      Worker_HeartbeatInterval = 1000000000, Worker_PollInterval = 1000000000,
      Worker_RetryPolicy = \<lparr>Policy_Initial = 1000000, Policy_Maximum = 5000000\<rparr>,
      Worker_Handler = Some (\<lambda>w job. (w, outcome))\<rparr>"

lemma sample_worker_valid [simp]: "validate (sample_worker err outcome) = None"
proof -
  have "validateClaim (worker_claim (sample_worker err outcome)) = None"
    by (simp add: validateClaim_None worker_claim_def sample_worker_def)
  moreover have "\<exists>d. Delay (Worker_RetryPolicy (sample_worker err outcome)) 1 = Inr d"
    unfolding Delay_Inr_iff by (simp add: policy_invalid_def sample_worker_def go_defs)
  ultimately show ?thesis
    by (auto simp: validate_def) (simp_all add: sample_worker_def nilLike_def go_defs smod_pos sdiv_pos)
qed

definition sample_attempt :: attempt where
  "sample_attempt = \<lparr>at_during = [SelTick], at_after = [SelTick], at_finished_first = True, at_ctx_err = None\<rparr>"

definition observe :: "'w Worker \<Rightarrow> attempt \<Rightarrow> 'w Handler \<Rightarrow> Job \<Rightarrow> 'w \<Rightarrow> ('w \<times> observed list) \<times> error" where
  "observe worker at handler job w = runAttempt (recorded worker) at (recording_handler handler) job (w, [])"

lemma validate_ops: "validate (worker\<lparr>Worker_Ops := ops\<rparr>) = validate worker"
  by (simp add: validate_def worker_claim_def cong: if_cong option.case_cong sum.case_cong)

text \<open>A worker whose first heartbeat is canceled on its own while the handler runs.\<close>

definition canceled_worker :: "unit Worker" where
  "canceled_worker = (sample_worker None (HandlerReturned None))\<lparr>Worker_Ops :=
     (sample_store (job_of_row sample_running) None)\<lparr>st_Heartbeat := (\<lambda>w lease d. (w, Some (Sentinel context_Canceled)))\<rparr>\<rparr>"

theorem attempt_acknowledges_once_witness:
  "(\<exists>log err. observe (sample_worker None HandlerPanicked) sample_attempt (\<lambda>w job. (w, HandlerPanicked))
       (job_of_row sample_running) () = (((), log), err) \<and>
     length (filter is_ack log) \<le> 1 \<and> (\<forall>l j e. Complete_obs l j e \<in> set log \<longrightarrow> l = Job_Lease (job_of_row sample_running))) \<and>
   (\<exists>log err. observe canceled_worker (sample_attempt\<lparr>at_finished_first := False\<rparr>) (\<lambda>w job. (w, HandlerReturned None))
       (job_of_row sample_running) () = (((), log), err) \<and> filter is_ack log = [])"
proof (intro conjI)
  obtain w log err where o: "observe (sample_worker None HandlerPanicked) sample_attempt (\<lambda>w job. (w, HandlerPanicked))
      (job_of_row sample_running) () = ((w, log), err)" by (metis surj_pair)
  from attempt_acknowledges_once [OF sample_worker_valid o [unfolded observe_def]] o
  show "\<exists>log err. observe (sample_worker None HandlerPanicked) sample_attempt (\<lambda>w job. (w, HandlerPanicked))
       (job_of_row sample_running) () = (((), log), err) \<and>
     length (filter is_ack log) \<le> 1 \<and> (\<forall>l j e. Complete_obs l j e \<in> set log \<longrightarrow> l = Job_Lease (job_of_row sample_running))"
    by auto
  let ?at = "sample_attempt\<lparr>at_finished_first := False\<rparr>" and ?h = "\<lambda>w job. (w, HandlerReturned None)"
  have valid: "validate canceled_worker = None"
    by (simp only: canceled_worker_def validate_ops sample_worker_valid)
  have hb: "snd (snd (coordinate (recorded canceled_worker) ?at (recording_handler ?h) (job_of_row sample_running) ((), []))) =
      Some (Sentinel context_Canceled)"
    by (simp add: coordinate_def sample_attempt_def canceled_worker_def recording_def recording_handler_def)
  obtain w log err where c: "observe canceled_worker ?at ?h (job_of_row sample_running) () = ((w, log), err)" by (metis surj_pair)
  have "\<not> stopped_by_finish ?at (Sentinel context_Canceled)" by (simp add: stopped_by_finish_def)
  with attempt_acknowledges_once [OF valid c [unfolded observe_def]] hb have "filter is_ack log = []" by blast
  with c show "\<exists>log err. observe canceled_worker ?at ?h (job_of_row sample_running) () = (((), log), err) \<and> filter is_ack log = []"
    by auto
qed

theorem attempt_unknown_reconciles_witness:
  "\<exists>w log err. observe (sample_worker (Some (Sentinel ErrCommitOutcomeUnknown)) (HandlerReturned None)) sample_attempt
       (\<lambda>w job. (w, HandlerReturned None)) (job_of_row sample_running) () = ((w, log), err) \<and>
     Is err ErrCommitOutcomeUnknown"
proof -
  let ?u = "Some (Sentinel ErrCommitOutcomeUnknown)"
  obtain w log err where o: "observe (sample_worker ?u (HandlerReturned None)) sample_attempt
      (\<lambda>w job. (w, HandlerReturned None)) (job_of_row sample_running) () = ((w, log), err)" by (metis surj_pair)
  have "Complete_obs (Job_Lease (job_of_row sample_running)) (job_of_row sample_running) ?u \<in> set log"
    using o by (auto simp: observe_def runAttempt_def conclude_def coordinate_def sample_attempt_def sample_worker_def sample_store_def
        recording_def recording_handler_def callHandler_def acknowledge_def Let_def)
  from attempt_unknown_reconciles [OF o [unfolded observe_def] this] o show ?thesis by auto
qed

end
