(* ===== verification/Service.thy ===== *)
theory Service
  imports Worker
begin

text \<open>
  The worker as a service: what a whole \<^verbatim>\<open>Run\<close> does with the answers of its store, the
  contract of a store as the locale \<open>store_contract\<close> with the worker's guarantees proved
  once from it, and its interpretation on the PostgreSQL repository, where other workers and
  clients change the table between any two calls.
\<close>

section \<open>A whole run, observed\<close>

text \<open>An entry of the attempt on \<open>job\<close>: its handler call, or a call with its lease.\<close>

definition attempt_entry :: "'w Worker \<Rightarrow> Job \<Rightarrow> observed \<Rightarrow> bool" where
  "attempt_entry worker job ob =
     (case ob of
        Claimed_obs _ _ _ \<Rightarrow> False
      | Heartbeat_obs lease d _ \<Rightarrow> lease = Job_Lease job \<and> d = Worker_LeaseDuration worker
      | Complete_obs lease _ _ \<Rightarrow> lease = Job_Lease job
      | Fail_obs lease _ _ _ \<Rightarrow> lease = Job_Lease job
      | Handled_obs j _ \<Rightarrow> j = job)"

text \<open>The job was handed out by a confirmed claim of this worker and passed its check.\<close>

definition confirmed :: "'w Worker \<Rightarrow> observed list \<Rightarrow> Job \<Rightarrow> bool" where
  "confirmed worker entries job \<longleftrightarrow>
     Claimed_obs (worker_claim worker) job None \<in> set entries \<and>
     validateClaimedAttempt job (Worker_Queue worker) (Worker_WorkerID worker) = None"

text \<open>What the log of one iteration, and so of a run, always satisfies.\<close>

definition run_log :: "'w Worker \<Rightarrow> observed list \<Rightarrow> error \<Rightarrow> bool" where
  "run_log worker entries err \<longleftrightarrow>
     (\<forall>ob \<in> set entries. (\<exists>job e. ob = Claimed_obs (worker_claim worker) job e) \<or>
        (\<exists>job. confirmed worker entries job \<and> attempt_entry worker job ob)) \<and>
     (\<forall>ob \<in> set entries. Is (obs_error ob) ErrCommitOutcomeUnknown \<longrightarrow> Is err ErrCommitOutcomeUnknown)"

lemma run_logI:
  assumes "\<And>ob. ob \<in> set entries \<Longrightarrow> (\<exists>job e. ob = Claimed_obs (worker_claim worker) job e) \<or>
      (\<exists>job. confirmed worker entries job \<and> attempt_entry worker job ob)"
    "\<And>ob. ob \<in> set entries \<Longrightarrow> Is (obs_error ob) ErrCommitOutcomeUnknown \<Longrightarrow> Is err ErrCommitOutcomeUnknown"
  shows "run_log worker entries err"
  using assms by (auto simp: run_log_def)

lemma beats_entries:
  "list_all (is_beat (Job_Lease job) (Worker_LeaseDuration worker)) beats \<Longrightarrow> ob \<in> set beats \<Longrightarrow> attempt_entry worker job ob"
  by (auto simp: list_all_iff is_beat_def attempt_entry_def)

lemma attempt_entries:
  assumes "runAttempt (recorded worker) at (recording_handler handler) job (w, log) = ((w', log'), err)"
  obtains entries where "log' = log @ entries" "\<And>ob. ob \<in> set entries \<Longrightarrow> attempt_entry worker job ob"
    "\<And>ob. ob \<in> set entries \<Longrightarrow> Is (obs_error ob) ErrCommitOutcomeUnknown \<Longrightarrow> Is err ErrCommitOutcomeUnknown"
proof -
  have handled: "attempt_entry worker job (Handled_obs job outcome)" for outcome by (simp add: attempt_entry_def)
  have "\<exists>entries. log' = log @ entries \<and> (\<forall>ob \<in> set entries. attempt_entry worker job ob)"
    using assms
  proof (cases rule: runAttempt_recorded)
    case (silent pre outcome post hb)
    with beats_entries [OF silent(2)] handled show ?thesis by auto
  next
    case (acknowledged pre outcome post ack hb)
    have "attempt_entry worker job ack" using acknowledged(7) by (auto simp: attempt_entry_def)
    with acknowledged(1) beats_entries [OF acknowledged(2)] handled show ?thesis by auto
  qed
  then obtain entries where e: "log' = log @ entries" "\<forall>ob \<in> set entries. attempt_entry worker job ob" by blast
  have "Is err ErrCommitOutcomeUnknown" if "ob \<in> set entries" "Is (obs_error ob) ErrCommitOutcomeUnknown" for ob
    using attempt_unknown [OF assms [unfolded e(1)] that] by auto
  with that [OF e(1)] e(2) show ?thesis by blast
qed

lemma run_cycle_recorded:
  assumes "run_cycle (recorded worker) (recording_handler handler) cy (w, log) = ((w', log'), err)"
  shows "\<exists>entries. log' = log @ entries \<and> run_log worker entries err"
proof (cases "cy_ctx_err cy")
  case (Some e)
  with assms show ?thesis by (auto simp: run_cycle_def run_log_def intro!: exI [of _ "[]"])
next
  case None
  let ?c = "worker_claim worker"
  obtain w1 job cerr where c: "st_Claim (Worker_Ops worker) w ?c = (w1, job, cerr)" by (metis surj_pair)
  let ?log1 = "log @ [Claimed_obs ?c job cerr]"
  have claim: "st_Claim (Worker_Ops (recorded worker)) (w, log) (worker_claim (recorded worker)) = ((w1, ?log1), job, cerr)"
    using c by (simp add: recording_def)
  show ?thesis
  proof (cases "cerr = None \<and> validateClaimedAttempt job (Worker_Queue worker) (Worker_WorkerID worker) = None")
    case True
    then have "runAttempt (recorded worker) (cy_attempt cy) (recording_handler handler) job (w1, ?log1) = ((w', log'), err)"
      using assms None claim by (simp add: run_cycle_def)
    from attempt_entries [OF this] obtain es where es: "log' = ?log1 @ es"
      "\<And>ob. ob \<in> set es \<Longrightarrow> attempt_entry worker job ob"
      "\<And>ob. ob \<in> set es \<Longrightarrow> Is (obs_error ob) ErrCommitOutcomeUnknown \<Longrightarrow> Is err ErrCommitOutcomeUnknown" by metis
    show ?thesis
      by (intro exI [of _ "Claimed_obs ?c job cerr # es"] conjI run_logI) (use es True in \<open>auto simp: confirmed_def\<close>)
  next
    case False
    then have "log' = ?log1" "Is cerr ErrCommitOutcomeUnknown \<Longrightarrow> Is err ErrCommitOutcomeUnknown"
      using assms None claim
      by (auto simp: run_cycle_def Is_def split: if_splits option.splits)
    then show ?thesis by (intro exI [of _ "[Claimed_obs ?c job cerr]"] conjI run_logI) auto
  qed
qed

lemma run_log_append:
  "run_log worker xs None \<Longrightarrow> run_log worker ys err \<Longrightarrow> run_log worker (xs @ ys) err"
  by (fastforce simp: run_log_def confirmed_def)

lemma run_loop_recorded:
  assumes "run_loop (recorded worker) (recording_handler handler) cycles (w, log) = ((w', log'), err)"
  shows "\<exists>entries. log' = log @ entries \<and> run_log worker entries err"
  using assms
proof (induction cycles arbitrary: w log)
  case Nil
  then show ?case by (auto simp: run_log_def)
next
  case (Cons cy cycles)
  obtain w1 log1 e where c: "run_cycle (recorded worker) (recording_handler handler) cy (w, log) = ((w1, log1), e)"
    by (metis surj_pair)
  from run_cycle_recorded [OF c] obtain xs where xs: "log1 = log @ xs" "run_log worker xs e" by blast
  show ?case
  proof (cases e)
    case None
    with Cons.prems c have "run_loop (recorded worker) (recording_handler handler) cycles (w1, log1) = ((w', log'), err)"
      by simp
    from Cons.IH [OF this] obtain ys where "log' = log1 @ ys" "run_log worker ys err" by blast
    with xs None run_log_append show ?thesis by fastforce
  next
    case (Some x)
    with Cons.prems c xs show ?thesis by auto
  qed
qed

lemma Run_recorded:
  assumes "Run (recorded worker) ctx cycles (w, []) = ((w', log), err)"
  shows "run_log worker log err"
proof (cases "ctx = NilInterface \<or> validate worker \<noteq> None")
  case True
  with assms have "log = []" by (auto simp: Run_def split: if_splits option.splits)
  then show ?thesis by (simp add: run_log_def)
next
  case False
  then obtain handler where "Worker_Handler worker = Some handler" using validate_None(2) by blast
  with False assms have "run_loop (recorded worker) (recording_handler handler) cycles (w, []) = ((w', log), err)"
    by (simp add: Run_def)
  from run_loop_recorded [OF this] show ?thesis by simp
qed

text \<open>
  C10. Over a whole \<^verbatim>\<open>Run\<close>, with any store and any schedule: the handler is called only
  for jobs a claim returned with a nil error and that passed \<^verbatim>\<open>validateClaimedAttempt\<close>,
  so never for an unconfirmed claim; and as soon as any call answers
  \<^verbatim>\<open>ErrCommitOutcomeUnknown\<close>, \<^verbatim>\<open>Run\<close> has returned an error that still matches it:
  an unknown outcome is neither retried nor swallowed.
\<close>

theorem Run_handles_confirmed:
  assumes "Run (recorded worker) ctx cycles (w, []) = ((w', log), err)"
  shows "(\<forall>job outcome. Handled_obs job outcome \<in> set log \<longrightarrow>
      Claimed_obs (worker_claim worker) job None \<in> set log \<and>
      validateClaimedAttempt job (Worker_Queue worker) (Worker_WorkerID worker) = None) \<and>
    (\<forall>ob \<in> set log. Is (obs_error ob) ErrCommitOutcomeUnknown \<longrightarrow> Is err ErrCommitOutcomeUnknown)"
proof -
  have "run_log worker log err" using Run_recorded [OF assms] .
  then show ?thesis by (force simp: run_log_def confirmed_def attempt_entry_def)
qed

definition sample_cycle :: cycle where
  "sample_cycle = \<lparr>cy_ctx_err = None, cy_wait = TimerFired, cy_attempt = sample_attempt\<rparr>"

theorem Run_handles_confirmed_witness:
  "\<exists>w' log err. Run (recorded (sample_worker None HandlerPanicked)) sample_ctx [sample_cycle] ((), []) = ((w', log), err) \<and>
     (\<forall>job outcome. Handled_obs job outcome \<in> set log \<longrightarrow>
       Claimed_obs (worker_claim (sample_worker None HandlerPanicked)) job None \<in> set log)"
proof -
  obtain w' log err where r: "Run (recorded (sample_worker None HandlerPanicked)) sample_ctx [sample_cycle] ((), []) =
      ((w', log), err)" by (metis surj_pair)
  from Run_handles_confirmed [OF r] r show ?thesis by blast
qed

section \<open>The contract of a store\<close>

text \<open>
  What the worker relies on, in two layers: a world invariant every call keeps, and confirmed
  claims that are within the request.
\<close>

locale store_invariant =
  fixes st :: "'w Store"
    and inv :: "'w \<Rightarrow> bool"
  assumes claim_inv: "inv w \<Longrightarrow> st_Claim st w request = (w', job, err) \<Longrightarrow> inv w'"
    and heartbeat_inv: "inv w \<Longrightarrow> st_Heartbeat st w lease d = (w', err) \<Longrightarrow> inv w'"
    and complete_inv: "inv w \<Longrightarrow> st_Complete st w lease = (w', job, err) \<Longrightarrow> inv w'"
    and fail_inv: "inv w \<Longrightarrow> st_Fail st w lease failure = (w', job, err) \<Longrightarrow> inv w'"
begin

lemma heartbeat_keeps:
  "inv w \<Longrightarrow> heartbeat st d lease choices w = (w', res) \<Longrightarrow> inv w'"
proof (induction choices arbitrary: w)
  case (Cons c choices)
  then show ?case
    by (cases c) (auto split: prod.splits option.splits dest: heartbeat_inv)
qed simp

lemma coordinate_keeps:
  assumes "Worker_Ops worker = st" "inv w" "\<And>w job. inv w \<Longrightarrow> inv (fst (handler w job))"
    "coordinate worker at handler job w = (w', he, hb)"
  shows "inv w'"
proof -
  let ?l = "Job_Lease job" and ?d = "Worker_LeaseDuration worker"
  obtain w1 h1 where h1: "heartbeat st ?d ?l (at_during at) w = (w1, h1)" by fastforce
  obtain w2 out where h: "handler w1 job = (w2, out)" by fastforce
  have "inv w2" using assms(3) [OF heartbeat_keeps [OF assms(2) h1], of job] h by simp
  moreover obtain w3 h2 where h2: "heartbeat st ?d ?l (at_after at @ [SelStop]) w2 = (w3, h2)" by fastforce
  ultimately show ?thesis
    using assms(1,4) h1 h h2 heartbeat_keeps [OF \<open>inv w2\<close> h2]
    by (auto simp: coordinate_def split: heartbeat_result.splits)
qed

lemma acknowledge_world: "fst (acknowledge lease what result) = fst result"
  by (cases result) (simp add: acknowledge_def)

lemma runAttempt_keeps:
  assumes "Worker_Ops worker = st" "inv w" "\<And>w job. inv w \<Longrightarrow> inv (fst (handler w job))"
  shows "inv (fst (runAttempt worker at handler job w))"
proof -
  obtain w1 he hb where c: "coordinate worker at handler job w = (w1, he, hb)" by (metis surj_pair)
  have "inv w1" using coordinate_keeps [OF assms c] .
  moreover from this have "inv (fst (st_Complete st w1 l))" "inv (fst (st_Fail st w1 l f))" for l f
    using complete_inv fail_inv by (metis prod.collapse)+
  ultimately show ?thesis
    using assms(1) by (simp add: runAttempt_def conclude_def c Let_def acknowledge_world split: option.splits sum.splits)
qed

lemma run_cycle_keeps:
  assumes "Worker_Ops worker = st" "inv w" "\<And>w job. inv w \<Longrightarrow> inv (fst (handler w job))"
  shows "inv (fst (run_cycle worker handler cy w))"
proof -
  obtain w1 job err where c: "st_Claim st w (worker_claim worker) = (w1, job, err)" by (metis surj_pair)
  have "inv w1" using claim_inv [OF assms(2) c] .
  with runAttempt_keeps [OF assms(1) _ assms(3)] c assms(1,2) show ?thesis
    by (simp add: run_cycle_def split: option.splits)
qed

lemma Run_keeps:
  assumes "Worker_Ops worker = st" "inv w" "\<And>handler w job. Worker_Handler worker = Some handler \<Longrightarrow> inv w \<Longrightarrow> inv (fst (handler w job))"
  shows "inv (fst (Run worker ctx cycles w))"
proof -
  have "inv (fst (run_loop worker handler cycles w))" if "Worker_Handler worker = Some handler" for handler
    using assms(2)
  proof (induction cycles arbitrary: w)
    case (Cons cy cycles)
    have k: "inv (fst (run_cycle worker handler cy w))"
      using run_cycle_keeps [OF assms(1) Cons.prems assms(3) [OF that]] .
    with Cons.IH show ?case by (auto split: prod.splits option.splits)
  qed simp
  with assms(2) show ?thesis by (auto simp: Run_def split: option.splits)
qed

end

locale store_contract = store_invariant st inv
  for st :: "'w Store" and inv :: "'w \<Rightarrow> bool" +
  assumes claim_confirmed: "inv w \<Longrightarrow> st_Claim st w request = (w', job, None) \<Longrightarrow>
      validateClaimedAttempt job (Claim_Queue request) (Claim_Worker request) = None"
begin

text \<open>With such a store the worker never meets an invalid claimed job.\<close>

lemma run_cycle_claimed:
  assumes "Worker_Ops worker = st" "inv w" "cy_ctx_err cy = None"
    "st_Claim st w (worker_claim worker) = (w1, job, None)"
  shows "run_cycle worker handler cy w = runAttempt worker (cy_attempt cy) handler job w1"
  using claim_confirmed [OF assms(2,4)] assms by (simp add: run_cycle_def worker_claim_def)

end

section \<open>The repository as a store\<close>

text \<open>
  The world of a worker on PostgreSQL: the table, the environment of the n-th call, and what
  everybody else does to the table before that call.
\<close>

record pg_world =
  w_db :: db
  w_next :: nat
  w_scripts :: "nat \<Rightarrow> script"
  w_others :: "nat \<Rightarrow> db \<Rightarrow> db"

definition pg_call :: "(script \<Rightarrow> db \<Rightarrow> db \<times> 'a) \<Rightarrow> pg_world \<Rightarrow> pg_world \<times> 'a" where
  "pg_call op w =
     (case op (w_scripts w (w_next w)) (w_others w (w_next w) (w_db w)) of
        (db', v) \<Rightarrow> (w\<lparr>w_db := db', w_next := Suc (w_next w)\<rparr>, v))"

definition pg_store :: "repository \<Rightarrow> ctx \<Rightarrow> pg_world Store" where
  "pg_store repository ctx =
     \<lparr>st_Claim = (\<lambda>w request. pg_call (\<lambda>s. Claim s repository ctx request) w),
      st_Heartbeat = (\<lambda>w lease d. pg_call (\<lambda>s db. case Heartbeat s repository ctx lease d db of
         (db', _, err) \<Rightarrow> (db', err)) w),
      st_Complete = (\<lambda>w lease. pg_call (\<lambda>s. Complete s repository ctx lease) w),
      st_Fail = (\<lambda>w lease failure. pg_call (\<lambda>s. Fail s repository ctx lease failure) w)\<rparr>"

definition pg_inv :: "pg_world \<Rightarrow> bool" where
  "pg_inv w \<longleftrightarrow> db_ok (w_db w) \<and> (\<forall>n. clock_sane (s_clock (w_scripts w n))) \<and>
     (\<forall>n db. db_ok db \<longrightarrow> db_ok (w_others w n db))"

lemma pg_call_inv:
  assumes "pg_inv w" "pg_call op w = (w', v)"
    "\<And>s db db' v. clock_sane (s_clock s) \<Longrightarrow> db_ok db \<Longrightarrow> op s db = (db', v) \<Longrightarrow> db_ok db'"
  shows "pg_inv w'"
proof -
  obtain db' v' where r: "op (w_scripts w (w_next w)) (w_others w (w_next w) (w_db w)) = (db', v')" by fastforce
  have "db_ok db'" using assms(3) [OF _ _ r] assms(1) by (simp add: pg_inv_def)
  with assms(1,2) r show ?thesis by (auto simp: pg_call_def pg_inv_def)
qed

lemma granted_claimed_attempt:
  assumes "row_ok (granted s request token r)" "claim_eligible (s_clock s) (Claim_Queue request) r"
  shows "validateClaimedAttempt (job_of_row (granted s request token r)) (Claim_Queue request) (Claim_Worker request) = None"
proof -
  have "validateStoredJob (job_of_row (granted s request token r)) = None"
    using row_ok_job [OF assms(1)] by (simp only: validateStoredJob_None)
  moreover have "Job_Queue (job_of_row (granted s request token r)) = Claim_Queue request"
    "Job_LeaseOwner (job_of_row (granted s request token r)) = Claim_Worker request"
    using assms(2) by (auto simp: claimed_row_def claim_eligible_def job_of_row_text)
  ultimately show ?thesis by (simp only: validateClaimedAttempt_def) simp
qed

lemma call_sound:
  assumes "clock_sane (s_clock s)" "db_ok db"
  shows "Claim s repository ctx request db = (db', v) \<Longrightarrow> db_ok db'"
    "(case Heartbeat s repository ctx lease d db of (db', _, err) \<Rightarrow> (db', err)) = (db', e) \<Longrightarrow> db_ok db'"
    "Complete s repository ctx lease db = (db', v) \<Longrightarrow> db_ok db'"
    "Fail s repository ctx lease failure db = (db', v) \<Longrightarrow> db_ok db'"
  using assms Claim_db_ok Heartbeat_lawful Complete_lawful Fail_lawful
  by (cases v, auto simp: lawful_def split: prod.splits)+

interpretation pg: store_contract "pg_store repository ctx" pg_inv
  for repository ctx
proof
  fix w w' :: pg_world and request lease d failure job err
  assume inv: "pg_inv w"
  show "pg_inv w'" if a: "st_Claim (pg_store repository ctx) w request = (w', job, err)"
    by (rule pg_call_inv [OF inv a [unfolded pg_store_def Store.simps]]) (rule call_sound(1))
  show "pg_inv w'" if a: "st_Heartbeat (pg_store repository ctx) w lease d = (w', err)"
    by (rule pg_call_inv [OF inv a [unfolded pg_store_def Store.simps]]) (rule call_sound(2))
  show "pg_inv w'" if a: "st_Complete (pg_store repository ctx) w lease = (w', job, err)"
    by (rule pg_call_inv [OF inv a [unfolded pg_store_def Store.simps]]) (rule call_sound(3))
  show "pg_inv w'" if a: "st_Fail (pg_store repository ctx) w lease failure = (w', job, err)"
    by (rule pg_call_inv [OF inv a [unfolded pg_store_def Store.simps]]) (rule call_sound(4))
  show "validateClaimedAttempt job (Claim_Queue request) (Claim_Worker request) = None"
    if c: "st_Claim (pg_store repository ctx) w request = (w', job, None)"
  proof -
    let ?s = "w_scripts w (w_next w)" and ?db = "w_others w (w_next w) (w_db w)"
    obtain db' where r: "Claim ?s repository ctx request ?db = (db', job, None)"
      using c by (auto simp: pg_store_def pg_call_def split: prod.splits)
    show ?thesis
      by (rule Claim_Ok [OF r]) (use inv granted_claimed_attempt claimable_D(2) in \<open>auto simp: pg_inv_def\<close>)
  qed
qed

text \<open>
  A worker on PostgreSQL never corrupts the queue and never stumbles over its own
  claims: whatever fails, whatever other workers do between its calls and however it is
  scheduled, the table stays sound through a whole \<^verbatim>\<open>Run\<close>, and every confirmed claim
  leads to the handler, never to the error for an invalid claimed job.
\<close>

theorem worker_keeps_table:
  assumes "Worker_Ops worker = pg_store repository rctx" "pg_inv w" "Worker_Handler worker = Some handler"
    "\<And>w job. pg_inv w \<Longrightarrow> pg_inv (fst (handler w job))"
  shows "db_ok (w_db (fst (Run worker ctx cycles w))) \<and>
    (\<forall>cy w1 job. cy_ctx_err cy = None \<and> st_Claim (Worker_Ops worker) w (worker_claim worker) = (w1, job, None) \<longrightarrow>
      run_cycle worker handler cy w = runAttempt worker (cy_attempt cy) handler job w1)"
proof -
  have "pg_inv (fst (Run worker ctx cycles w))"
    by (rule pg.Run_keeps [OF assms(1,2)]) (use assms(3,4) in simp)
  then show ?thesis
    using pg.run_cycle_claimed [OF assms(1,2)] assms(1) by (simp add: pg_inv_def)
qed

definition pg_worker :: "pg_world Handler \<Rightarrow> pg_world Worker" where
  "pg_worker handler =
     \<lparr>Worker_Store = Boxed Pointer False, Worker_Ops = pg_store sample_repository sample_ctx,
      Worker_Queue = ''q'', Worker_WorkerID = ''w'', Worker_LeaseDuration = 2000000000,
      Worker_HeartbeatInterval = 1000000000, Worker_PollInterval = 1000000000,
      Worker_RetryPolicy = \<lparr>Policy_Initial = 1000000, Policy_Maximum = 5000000\<rparr>,
      Worker_Handler = Some handler\<rparr>"

definition sample_world :: pg_world where
  "sample_world = \<lparr>w_db = [sample_pending], w_next = 0, w_scripts = (\<lambda>_. sample_script), w_others = (\<lambda>_ db. db)\<rparr>"

lemma sample_world_inv [simp]: "pg_inv sample_world"
  by (simp add: pg_inv_def sample_world_def)

theorem worker_keeps_table_witness:
  "db_ok (w_db (fst (Run (pg_worker (\<lambda>w job. (w, HandlerPanicked))) sample_ctx [sample_cycle] sample_world)))"
proof -
  let ?h = "\<lambda>w job. (w, HandlerPanicked)"
  have "Worker_Ops (pg_worker ?h) = pg_store sample_repository sample_ctx" "Worker_Handler (pg_worker ?h) = Some ?h"
    by (simp_all add: pg_worker_def)
  from worker_keeps_table [OF this(1) sample_world_inv this(2)] show ?thesis by simp
qed

section \<open>The loops end\<close>

text \<open>
  The join never hangs: once the stop channel is closed, that is once the select takes
  its stop case at some point, the heartbeat goroutine has returned, whatever ticks and store
  answers come before.
\<close>

theorem heartbeat_returns:
  "snd (heartbeat st d lease (choices @ SelStop # rest) w) \<noteq> Beating"
proof (induction choices arbitrary: w)
  case (Cons c choices)
  then show ?case by (cases c) (auto split: prod.splits option.splits)
qed simp

text \<open>
  C37. Shutdown ends the loop: when the context has ended at some iteration, \<^verbatim>\<open>Run\<close> has
  returned by then, with an error, and a run that was still going returns exactly the
  context's error without another claim.
\<close>

theorem Run_returns:
  assumes "cy_ctx_err cy = Some e"
  shows "snd (Run worker ctx (cycles @ cy # rest) w) \<noteq> None \<and>
    (snd (Run worker ctx cycles w) = None \<longrightarrow>
      Run worker ctx (cycles @ cy # rest) w = (fst (Run worker ctx cycles w), Some e))"
proof -
  have loop: "snd (run_loop worker handler (cycles @ cy # rest) w) \<noteq> None \<and>
      (snd (run_loop worker handler cycles w) = None \<longrightarrow>
        run_loop worker handler (cycles @ cy # rest) w = (fst (run_loop worker handler cycles w), Some e))" for handler
  proof (induction cycles arbitrary: w)
    case Nil
    then show ?case using assms by (simp add: run_cycle_def)
  next
    case (Cons c cycles)
    then show ?case by (auto split: prod.splits option.splits)
  qed
  show ?thesis
  proof (cases "ctx = NilInterface \<or> validate worker \<noteq> None")
    case True
    then show ?thesis by (auto simp: Run_def)
  next
    case False
    then obtain handler where "Worker_Handler worker = Some handler" using validate_None(2) by blast
    with False loop [of handler] show ?thesis by (simp add: Run_def)
  qed
qed

theorem Run_returns_witness:
  "snd (Run (sample_worker None HandlerPanicked) sample_ctx
     [sample_cycle, sample_cycle\<lparr>cy_ctx_err := Some (Sentinel context_Canceled)\<rparr>] ()) \<noteq> None"
  using Run_returns [of "sample_cycle\<lparr>cy_ctx_err := Some (Sentinel context_Canceled)\<rparr>" "Sentinel context_Canceled"
      "sample_worker None HandlerPanicked" sample_ctx "[sample_cycle]" "[]"] by simp

end
