(* ===== verification/Progress.thy ===== *)
theory Progress
  imports Service
begin

text \<open>
  Progress of a worker on PostgreSQL: while the heartbeats come in time, the lease of the
  job it handles is extended past any number of lease durations, nobody else touches the
  row, and the attempt ends with the row settled by the handler's result.
\<close>

section \<open>What a cycle makes of a row\<close>

text \<open>What a cycle makes of the row it was handed, by the handler's result.\<close>

definition settled_row :: "clock \<Rightarrow> RetryPolicy \<Rightarrow> error \<Rightarrow> row \<Rightarrow> row" where
  "settled_row clk policy handlerErr r =
     (case handlerErr of
        None \<Rightarrow> completed_row clk r
      | Some e \<Rightarrow> failed_row clk (boundedFailure e) (IsPermanent (Some e))
          (if IsPermanent (Some e) then 0
           else min (Policy_Initial policy * 2 ^ nat (c_attempts r - 1)) (Policy_Maximum policy) div 1000) r)"

lemma settled_row_state:
  "c_state (settled_row clk policy he r) =
     (case he of None \<Rightarrow> StateSucceeded
      | Some e \<Rightarrow> if IsPermanent (Some e) \<or> c_attempts r \<ge> c_max_attempts r then StateDead else StatePending)"
  by (simp add: settled_row_def completed_row_def failed_row_def Let_def state_defs split: option.splits)

lemma settled_row_id [simp]: "c_id (settled_row clk policy he r) = c_id r"
  by (simp add: settled_row_def completed_row_def failed_row_def Let_def split: option.splits)

section \<open>A lease kept alive\<close>

text \<open>The row after \<open>k\<close> heartbeats, the first of them as call number \<open>n\<close> of the world.\<close>

fun beaten :: "(nat \<Rightarrow> script) \<Rightarrow> int \<Rightarrow> nat \<Rightarrow> nat \<Rightarrow> row \<Rightarrow> row" where
  "beaten scripts us n 0 r = r"
| "beaten scripts us n (Suc k) r = beaten scripts us (Suc n) k (heartbeat_row (s_clock (scripts n)) us r)"

text \<open>
  Call number \<open>n\<close> finds its environment healthy and the lease of the row alive, and what others
  did just before it, the events \<open>evs n\<close>, does not cancel the job.
\<close>

definition in_time :: "(nat \<Rightarrow> script) \<Rightarrow> (nat \<Rightarrow> event list) \<Rightarrow> nat \<Rightarrow> row \<Rightarrow> bool" where
  "in_time scripts evs n r \<longleftrightarrow> healthy (scripts n) \<and> (\<forall>m. s_clock (scripts n) m (c_id r) < until_key r) \<and>
     list_all event_ok (evs n) \<and> list_all (outside r) (evs n)"

text \<open>\<open>k\<close> heartbeats and the acknowledgement after them are each in time.\<close>

fun kept_alive :: "(nat \<Rightarrow> script) \<Rightarrow> (nat \<Rightarrow> event list) \<Rightarrow> int \<Rightarrow> nat \<Rightarrow> nat \<Rightarrow> row \<Rightarrow> bool" where
  "kept_alive scripts evs us n 0 r \<longleftrightarrow> in_time scripts evs n r"
| "kept_alive scripts evs us n (Suc k) r \<longleftrightarrow>
     in_time scripts evs n r \<and> kept_alive scripts evs us (Suc n) k (heartbeat_row (s_clock (scripts n)) us r)"

lemma heartbeat_row_keeps [simp]:
  "c_id (heartbeat_row clk us r) = c_id r" "c_lease_token (heartbeat_row clk us r) = c_lease_token r"
  "c_attempts (heartbeat_row clk us r) = c_attempts r" "c_max_attempts (heartbeat_row clk us r) = c_max_attempts r"
  by (simp_all add: heartbeat_row_def)

lemma beaten_keeps [simp]:
  "c_id (beaten scripts us n k r) = c_id r" "c_lease_token (beaten scripts us n k r) = c_lease_token r"
  "c_attempts (beaten scripts us n k r) = c_attempts r" "c_max_attempts (beaten scripts us n k r) = c_max_attempts r"
  by (induction k arbitrary: n r) simp_all

lemma kept_alive_add:
  "kept_alive scripts evs us n (k + m) r \<Longrightarrow>
   kept_alive scripts evs us n k r \<and> kept_alive scripts evs us (n + k) m (beaten scripts us n k r)"
proof (induction k arbitrary: n r)
  case 0
  then show ?case by (cases m) simp_all
next
  case (Suc k)
  from Suc.IH [of "Suc n"] Suc.prems show ?case by simp
qed

lemma beaten_add: "beaten scripts us (n + k) m (beaten scripts us n k r) = beaten scripts us n (k + m) r"
proof (induction k arbitrary: n r)
  case (Suc k)
  from Suc.IH [of "Suc n"] show ?case by simp
qed simp

lemma kept_alive_last: "kept_alive scripts evs us n k r \<Longrightarrow> in_time scripts evs (n + k) (beaten scripts us n k r)"
proof (induction k arbitrary: n r)
  case (Suc k)
  from Suc.IH [of "Suc n"] Suc.prems show ?case by simp
qed simp

text \<open>The world before call \<open>n\<close> of a worker that holds the lease of the row.\<close>

definition holding ::
  "(bytes \<Rightarrow> bytes) \<Rightarrow> (nat \<Rightarrow> script) \<Rightarrow> (nat \<Rightarrow> event list) \<Rightarrow> nat \<Rightarrow> pg_world \<Rightarrow> row \<Rightarrow> bool" where
  "holding sha256 scripts evs n w r \<longleftrightarrow> pg_inv w \<and> w_scripts w = scripts \<and>
     w_others w = (\<lambda>n. run_history sha256 (evs n)) \<and> w_next w = n \<and>
     find_row (c_id r) (w_db w) = Some r \<and> c_state r = StateRunning"

text \<open>The table call \<open>n\<close> of such a worker sees, after the events of the others.\<close>

lemma holding_table:
  assumes "holding sha256 scripts evs n w r" "sha256_size sha256" "in_time scripts evs n r"
  shows "find_row (c_id r) (w_others w n (w_db w)) = Some r" "db_ok (w_others w n (w_db w))"
    "lease_ok (Job_Lease (job_of_row r))" "row_ok r" "clock_sane (s_clock (scripts n))"
    "\<And>m. live_row (s_clock (scripts n) m (c_id r)) (Job_Lease (job_of_row r)) (w_others w n (w_db w)) = Some r"
    "Lease_JobID (Job_Lease (job_of_row r)) = c_id r"
proof -
  let ?db = "w_others w n (w_db w)"
  have w: "pg_inv w" "find_row (c_id r) (w_db w) = Some r" "c_state r = StateRunning"
    "w_others w n = run_history sha256 (evs n)" "w_scripts w = scripts"
    using assms(1) by (simp_all add: holding_def)
  show "clock_sane (s_clock (scripts n))" using w(1,5) by (auto simp: pg_inv_def)
  have db: "db_ok (w_db w)" using w(1) by (simp add: pg_inv_def)
  then show ok: "row_ok r" using find_row_ok w(2) by blast
  obtain token u where l: "c_lease_token r = Some token" "c_lease_until r = Some u"
    using row_ok_running(1,3) [OF ok] w(3) by auto
  then have "holds_lease r" using w(3) by (simp add: holds_lease_def)
  with run_history_outside [OF assms(2) _ db w(2)] assms(3) show find: "find_row (c_id r) ?db = Some r" "db_ok ?db"
    by (simp_all add: in_time_def w(4))
  show id: "Lease_JobID (Job_Lease (job_of_row r)) = c_id r" using l(1) by (simp add: job_of_row_text)
  show "lease_ok (Job_Lease (job_of_row r))"
    using row_ok_scalars(1,19) [OF ok] l(1) by (simp add: lease_ok_def job_of_row_text)
  show "live_row (s_clock (scripts n) m (c_id r)) (Job_Lease (job_of_row r)) ?db = Some r" for m
    using find(1) l w(3) assms(3)
    by (simp add: live_row_Some lease_live_def job_of_row_text in_time_def until_key_def state_defs)
qed


lemma same_lease:
  "Job_Lease (job_of_row (heartbeat_row clk us r)) = Job_Lease (job_of_row r)"
  "Job_Lease (job_of_row (beaten scripts us n k r)) = Job_Lease (job_of_row r)"
  by (cases "c_lease_token r"; simp add: job_of_row_text)+

text \<open>A heartbeat in time extends the lease; so does any number of them.\<close>

lemma holding_beat:
  assumes "holding sha256 scripts evs n w r" "sha256_size sha256" "in_time scripts evs n r" "usable repository ctx"
    "MinLeaseDuration \<le> d" "d \<le> MaxLeaseDuration" "d mod 1000 = 0"
  obtains w' where "st_Heartbeat (pg_store repository ctx) w (Job_Lease (job_of_row r)) d = (w', None)"
    "holding sha256 scripts evs (Suc n) w' (heartbeat_row (s_clock (scripts n)) (Microseconds d) r)"
proof -
  let ?db = "w_others w n (w_db w)" and ?r' = "heartbeat_row (s_clock (scripts n)) (Microseconds d) r"
  let ?w' = "w\<lparr>w_db := set_row (c_id r) ?r' ?db, w_next := Suc n\<rparr>"
  note t = holding_table [OF assms(1-3)]
  have w: "pg_inv w" "w_scripts w = scripts" "w_next w = n" "c_state r = StateRunning"
    using assms(1) by (simp_all add: holding_def)
  have "healthy (scripts n)" using assms(3) by (simp add: in_time_def)
  from Heartbeat_live [OF this assms(4) t(3,2,5) assms(5-7)] t(6,7)
  have "Heartbeat (scripts n) repository ctx (Job_Lease (job_of_row r)) d ?db = (set_row (c_id r) ?r' ?db, (), None)"
    by simp
  then have beat: "st_Heartbeat (pg_store repository ctx) w (Job_Lease (job_of_row r)) d = (?w', None)"
    by (simp add: pg_store_def pg_call_def w)
  have "holding sha256 scripts evs (Suc n) ?w' ?r'"
    using assms(1) pg.heartbeat_inv [OF w(1) beat] find_set_row_same [OF t(1), of ?r']
    by (simp add: holding_def) (simp add: heartbeat_row_def)
  with beat that show ?thesis by blast
qed

lemma holding_beats:
  assumes "holding sha256 scripts evs n w r" "sha256_size sha256" "kept_alive scripts evs (Microseconds d) n k r"
    "usable repository ctx" "MinLeaseDuration \<le> d" "d \<le> MaxLeaseDuration" "d mod 1000 = 0"
  shows "\<exists>w'. holding sha256 scripts evs (n + k) w' (beaten scripts (Microseconds d) n k r) \<and>
    (\<forall>rest. heartbeat (pg_store repository ctx) d (Job_Lease (job_of_row r)) (replicate k SelTick @ rest) w =
      heartbeat (pg_store repository ctx) d (Job_Lease (job_of_row r)) rest w')"
  using assms(1,3)
proof (induction k arbitrary: n w r)
  case (Suc k)
  let ?r' = "heartbeat_row (s_clock (scripts n)) (Microseconds d) r"
  obtain w1 where w1: "st_Heartbeat (pg_store repository ctx) w (Job_Lease (job_of_row r)) d = (w1, None)"
    "holding sha256 scripts evs (Suc n) w1 ?r'"
    using holding_beat [OF Suc.prems(1) assms(2) _ assms(4-7)] Suc.prems(2) by auto
  with Suc.IH [OF w1(2)] Suc.prems(2) w1(1) show ?case by (simp add: same_lease)
qed auto

section \<open>The end of an attempt\<close>

text \<open>After the join, with no heartbeat error, the row is settled while its lease lives.\<close>

lemma conclude_settles:
  assumes "holding sha256 scripts evs n w r" "sha256_size sha256" "in_time scripts evs n r" "usable repository rctx"
    "validate worker = None" "Worker_Ops worker = pg_store repository rctx"
    "Job_Lease job = Job_Lease (job_of_row r)" "Job_Attempts job = c_attempts r"
  shows "conclude worker job None cause handlerErr None w =
    (w\<lparr>w_db := set_row (c_id r) (settled_row (s_clock (scripts n)) (Worker_RetryPolicy worker) handlerErr r)
        (w_others w n (w_db w)), w_next := Suc n\<rparr>, None)"
proof -
  let ?s = "scripts n" and ?db = "w_others w n (w_db w)" and ?lease = "Job_Lease (job_of_row r)"
  note t = holding_table [OF assms(1-3)]
  have w: "w_scripts w = scripts" "w_next w = n" "c_state r = StateRunning" using assms(1) by (simp_all add: holding_def)
  have s: "healthy ?s" using assms(3) by (simp add: in_time_def)
  note run = conclude_def Let_def assms(6-8) pg_store_def pg_call_def acknowledge_def settled_row_def w
  show ?thesis
  proof (cases handlerErr)
    case None
    have "Complete ?s repository rctx ?lease ?db =
        (set_row (c_id r) (completed_row (s_clock ?s) r) ?db, job_of_row (completed_row (s_clock ?s) r), None)"
      using Complete_live [OF s assms(4) t(3,2,5)] t(6,7) by simp
    with None show ?thesis by (simp add: run)
  next
    case (Some e)
    let ?p = "Worker_RetryPolicy worker" and ?perm = "IsPermanent (Some e)"
    have "1 \<le> c_attempts r" using row_ok_attempts(2) [OF t(4)] w(3) by simp
    then have pol: "\<not> policy_invalid ?p (c_attempts r)"
      using validate_None(3) [OF assms(5)] by (simp add: policy_invalid_def)
    let ?d = "if ?perm then 0 else min (Policy_Initial ?p * 2 ^ nat (c_attempts r - 1)) (Policy_Maximum ?p)"
    let ?f = "\<lparr>Failure_Message = boundedFailure e, Failure_RetryAfter = ?d, Failure_Permanent = ?perm\<rparr>"
    have d: "(if ?perm then Inr 0 else Delay ?p (c_attempts r)) = Inr ?d" using Delay_closed [OF pol] by simp
    have us: "Microseconds ?d = (if ?perm then 0 else min (Policy_Initial ?p * 2 ^ nat (c_attempts r - 1)) (Policy_Maximum ?p) div 1000)"
      using pol by (simp add: Microseconds_nonneg policy_invalid_def)
    obtain job' where "Fail ?s repository rctx ?lease ?f ?db =
        (set_row (c_id r) (failed_row (s_clock ?s) (boundedFailure e) ?perm (Microseconds ?d) r) ?db, job', None)"
      using Fail_live [OF s assms(4) t(3,2,5) worker_failure_valid [OF assms(5) d, of e]] t(6,7)
      by (auto simp: Let_def)
    with Some d us show ?thesis by (simp add: run cong: if_cong)
  qed
qed


text \<open>
  A whole attempt: \<open>k\<close> heartbeats while the handler runs, \<open>m\<close> more before the goroutine sees
  the closed stop channel, then the acknowledgement.
\<close>

lemma runAttempt_settles:
  assumes "holding sha256 scripts evs n w r" "sha256_size sha256"
    "kept_alive scripts evs (Microseconds (Worker_LeaseDuration worker)) n (k + m) r" "usable repository rctx"
    "validate worker = None" "Worker_Ops worker = pg_store repository rctx"
    "\<And>w job. handler w job = (w, outcome)" "at_during at = replicate k SelTick" "at_after at = replicate m SelTick"
    "at_ctx_err at = None"
  defines "r' \<equiv> settled_row (s_clock (scripts (n + (k + m)))) (Worker_RetryPolicy worker) (callHandler outcome)
    (beaten scripts (Microseconds (Worker_LeaseDuration worker)) n (k + m) r)"
  shows "\<exists>w'. runAttempt worker at handler (job_of_row r) w = (w', None) \<and> find_row (c_id r) (w_db w') = Some r'"
proof -
  let ?d = "Worker_LeaseDuration worker" and ?lease = "Job_Lease (job_of_row r)"
  let ?us = "Microseconds ?d"
  have d: "MinLeaseDuration \<le> ?d" "?d \<le> MaxLeaseDuration" "?d mod 1000 = 0"
    using validate_None(1) [OF assms(5)] by (simp_all add: validateClaim_None worker_claim_def go_defs)
  note alive = kept_alive_add [OF assms(3)]
  note beats = holding_beats [OF _ assms(2) _ assms(4) d]
  from beats [OF assms(1)] alive obtain w1 where w1: "holding sha256 scripts evs (n + k) w1 (beaten scripts ?us n k r)"
    "\<And>rest. heartbeat (pg_store repository rctx) ?d ?lease (replicate k SelTick @ rest) w =
       heartbeat (pg_store repository rctx) ?d ?lease rest w1" by blast
  from beats [OF w1(1)] alive obtain w2 where
    w2: "holding sha256 scripts evs (n + (k + m)) w2 (beaten scripts ?us n (k + m) r)"
    "\<And>rest. heartbeat (pg_store repository rctx) ?d ?lease (replicate m SelTick @ rest) w1 =
       heartbeat (pg_store repository rctx) ?d ?lease rest w2"
    unfolding beaten_add same_lease add.assoc by blast
  have co: "coordinate worker at handler (job_of_row r) w = (w2, callHandler outcome, None)"
    using w1(2) [of "[]"] w2(2) [of "[SelStop]"] assms(6-9) by (simp add: coordinate_def)
  note last = kept_alive_last [OF assms(3)]
  have "Job_Lease (job_of_row r) = Job_Lease (job_of_row (beaten scripts ?us n (k + m) r))"
    "Job_Attempts (job_of_row r) = c_attempts (beaten scripts ?us n (k + m) r)"
    by (simp_all add: same_lease)
  note conclude = conclude_settles [OF w2(1) assms(2) last assms(4-6) this, of "attempt_cause at None" "callHandler outcome"]
  have "find_row (c_id r) (set_row (c_id r) r' (w_others w2 (n + (k + m)) (w_db w2))) = Some r'"
    using find_set_row_same [OF holding_table(1) [OF w2(1) assms(2) last], of r'] by (simp add: r'_def)
  with conclude co assms(10) show ?thesis by (simp add: runAttempt_def r'_def)
qed


text \<open>
  C15. Progress of a cycle, end to end. When a job is due, one cycle of the worker claims the
  least due job, runs the handler and settles the job: succeeded if the handler returned nil;
  dead if its error was permanent or this was the last attempt; otherwise, panics included,
  pending again after the policy's delay, with the bounded error text; and the loop goes on.
  The handler may outlast the lease any number of times: it is enough that every heartbeat
  and the acknowledgement succeed before the lease, as the previous heartbeat left it, ends.
  Meanwhile other workers and clients make any calls that are not made with this lease and do
  not cancel this job.
\<close>

theorem run_cycle_settles:
  fixes worker :: "pg_world Worker"
  assumes n_def: "n = w_next w" and s0_def: "s0 = w_scripts w n" and db0_def: "db0 = run_history sha256 (evs n) (w_db w)"
    and due_def: "due = claimable s0 (Worker_Queue worker) db0"
    and us_def: "us = Microseconds (Worker_LeaseDuration worker)"
    and "validate worker = None" "Worker_Ops worker = pg_store repository rctx" "usable repository rctx"
    "pg_inv w" "sha256_size sha256" "w_others w = (\<lambda>n. run_history sha256 (evs n))"
    "healthy s0" "newLeaseToken (s_entropy s0) = Inr token" "due \<noteq> []"
    "\<And>r. r \<in> set due \<Longrightarrow> kept_alive (w_scripts w) evs us (Suc n) (k + m) (granted s0 (worker_claim worker) token r)"
    "\<And>w job. handler w job = (w, outcome)" "cy_ctx_err cy = None"
    "at_during (cy_attempt cy) = replicate k SelTick" "at_after (cy_attempt cy) = replicate m SelTick"
    "at_ctx_err (cy_attempt cy) = None"
  shows "\<exists>r w' r'. r \<in> set due \<and> (\<forall>x \<in> set due. claim_key r \<le> claim_key x) \<and>
    run_cycle worker handler cy w = (w', None) \<and> find_row (c_id r) (w_db w') = Some r' \<and>
    r' = settled_row (s_clock (w_scripts w (Suc n + (k + m)))) (Worker_RetryPolicy worker) (callHandler outcome)
      (beaten (w_scripts w) us (Suc n) (k + m) (granted s0 (worker_claim worker) token r)) \<and>
    c_state r' = (case callHandler outcome of None \<Rightarrow> StateSucceeded
      | Some e \<Rightarrow> if IsPermanent (Some e) \<or> c_attempts r + 1 \<ge> c_max_attempts r then StateDead else StatePending)"
proof -
  let ?req = "worker_claim worker"
  have q: "Claim_Queue ?req = Worker_Queue worker" by (simp add: worker_claim_def)
  have db0: "w_others w (w_next w) (w_db w) = db0" using assms(11) by (simp add: db0_def n_def)
  have inv: "db_ok db0" "clock_sane (s_clock s0)"
    using assms(9) unfolding db0 [symmetric] by (simp_all add: pg_inv_def s0_def)
  have claim: "validateClaim ?req = None" using validate_None(1) [OF assms(6)] .
  note run = Claim_run [OF assms(12,8) claim assms(13) inv]
  obtain r where r: "r \<in> set due" "candidate s0 (Claim_Queue ?req) db0 = [r]"
    "\<And>x. x \<in> set due \<Longrightarrow> claim_key r \<le> claim_key x"
    using candidate_cases [of s0 "Worker_Queue worker" db0] assms(14) unfolding due_def q by metis
  let ?g = "granted s0 ?req token r"
  let ?w1 = "w\<lparr>w_db := claim_table s0 ?req token db0, w_next := Suc n\<rparr>"
  have mem: "r \<in> set db0" "claim_eligible (s_clock s0) (Claim_Queue ?req) r"
    using claimable_D [OF r(1) [unfolded due_def]] by (simp_all add: q)
  have id: "c_id ?g = c_id r" by (simp add: claimed_row_def)
  have "r \<notin> set (reaped s0 (Claim_Queue ?req) db0)"
    using eligible_not_exhausted [OF mem(2)] reaped_D(2) by blast
  then have find: "find_row (c_id ?g) (w_db ?w1) = Some ?g"
    using find_claim_table [OF db_ok_D(1) [OF inv(1)]] find_row_member [OF db_ok_D(1) [OF inv(1)] mem(1)] r(2)
    by (simp add: claimed_row_def)
  have c: "st_Claim (Worker_Ops worker) w ?req = (?w1, job_of_row ?g, None)"
    using run r(2) assms(7) db0 by (simp add: pg_store_def pg_call_def s0_def n_def)
  have "pg_inv ?w1" using pg.claim_inv [OF assms(9)] c assms(7) by simp
  then have hold: "holding sha256 (w_scripts w) evs (Suc n) ?w1 ?g"
    using find assms(11) by (simp add: holding_def) (simp add: claimed_row_def state_defs)
  let ?r' = "settled_row (s_clock (w_scripts w (Suc n + (k + m)))) (Worker_RetryPolicy worker) (callHandler outcome)
      (beaten (w_scripts w) us (Suc n) (k + m) ?g)"
  obtain w' where w': "runAttempt worker (cy_attempt cy) handler (job_of_row ?g) ?w1 = (w', None)"
    "find_row (c_id ?g) (w_db w') = Some ?r'"
    using runAttempt_settles [where handler = handler and outcome = outcome,
        OF hold assms(10) assms(15) [OF r(1), unfolded us_def] assms(8,6,7,16,18-20)]
    unfolding us_def by blast
  have "run_cycle worker handler cy w = (w', None)"
    using pg.run_cycle_claimed [OF assms(7,9,17)] c assms(7) w'(1) by simp
  moreover have "c_state ?r' = (case callHandler outcome of None \<Rightarrow> StateSucceeded
      | Some e \<Rightarrow> if IsPermanent (Some e) \<or> c_attempts r + 1 \<ge> c_max_attempts r then StateDead else StatePending)"
    unfolding settled_row_state
    by (cases "callHandler outcome") (simp_all add: claimed_row_def del: callHandler_None)
  ultimately show ?thesis using r(1,3) w'(2) unfolding id by blast
qed


text \<open>
  A two second lease, claimed at second 5, extended at 6.5 and acknowledged at 8, with another
  worker's claim before each of the last two calls.
\<close>

definition slow_scripts :: "nat \<Rightarrow> script" where
  "slow_scripts n = (if n = 0 then sample_script
     else sample_script\<lparr>s_clock := (\<lambda>_ _. if n = 1 then 6500000 else 8000000)\<rparr>)"

definition rivals :: "nat \<Rightarrow> event list" where
  "rivals n = (if n = 0 then [] else [rival_claim])"

definition slow_world :: pg_world where
  "slow_world = \<lparr>w_db = [sample_pending], w_next = 0, w_scripts = slow_scripts,
     w_others = (\<lambda>n. run_history sample_sha256 (rivals n))\<rparr>"

definition slow_cycle :: cycle where
  "slow_cycle = sample_cycle\<lparr>cy_attempt := sample_attempt\<lparr>at_during := [SelTick], at_after := []\<rparr>\<rparr>"

lemma slow_world_inv: "pg_inv slow_world"
proof -
  have "event_ok rival_claim" by (simp add: rival_claim_def event_ok_def sample_event_def)
  then have "db_ok db \<Longrightarrow> db_ok (run_history sample_sha256 (rivals n) db)" for n db
    using run_event_lawful [OF sample_sha256_size] by (simp add: rivals_def lawful_def)
  then show ?thesis by (simp add: pg_inv_def slow_world_def slow_scripts_def clock_sane_def sample_clock_def)
qed

lemma pg_worker_valid: "validate (pg_worker h) = None"
proof -
  have "validateClaim (worker_claim (pg_worker h)) = None"
    by (simp add: validateClaim_None worker_claim_def pg_worker_def)
  moreover have "\<exists>d. Delay (Worker_RetryPolicy (pg_worker h)) 1 = Inr d"
    unfolding Delay_Inr_iff by (simp add: policy_invalid_def pg_worker_def go_defs)
  ultimately show ?thesis
    by (auto simp: validate_def) (simp_all add: pg_worker_def nilLike_def go_defs smod_pos sdiv_pos)
qed

lemma healthy_clock: "healthy (s\<lparr>s_clock := clk\<rparr>) = healthy s"
  by (cases s) (simp only: healthy_def script.update_convs script.select_convs)

lemma slow_in_time:
  assumes "0 < n" "(if n = 1 then 6500000 else 8000000) < until_key r"
  shows "in_time slow_scripts rivals n r"
proof -
  have "event_ok rival_claim" by (simp add: rival_claim_def event_ok_def sample_event_def)
  moreover have "outside r rival_claim"
    using assms(2) by (simp add: outside_def holder_call_def rival_claim_def sample_event_def sample_clock_def split: if_splits)
  moreover have "healthy (slow_scripts n)" by (simp add: slow_scripts_def healthy_clock)
  ultimately show ?thesis using assms by (simp add: in_time_def rivals_def) (simp add: slow_scripts_def)
qed

lemma slow_kept_alive:
  "kept_alive slow_scripts rivals (Microseconds 2000000000) 1 1
     (granted sample_script (worker_claim (pg_worker h)) sample_token sample_pending)"
proof -
  have "Microseconds 2000000000 = 2000000" by (simp add: Microseconds_nonneg)
  then have "until_key (granted sample_script (worker_claim (pg_worker h)) sample_token sample_pending) = 7000000"
    "until_key (heartbeat_row (s_clock (slow_scripts 1)) (Microseconds 2000000000) r) = 8500000" for r
    by (simp_all add: until_key_def claimed_row_def heartbeat_row_def worker_claim_def pg_worker_def sample_clock_def slow_scripts_def)
  then show ?thesis by (simp add: slow_in_time)
qed

theorem run_cycle_settles_witness:
  "\<exists>w' r'. run_cycle (pg_worker (\<lambda>w job. (w, HandlerReturned None))) (\<lambda>w job. (w, HandlerReturned None))
      slow_cycle slow_world = (w', None) \<and> find_row sample_id (w_db w') = Some r' \<and> c_state r' = StateSucceeded"
proof -
  let ?h = "\<lambda>w job. (w, HandlerReturned None)"
  let ?W = "pg_worker ?h"
  have w: "w_next slow_world = 0" "slow_scripts 0 = sample_script" "w_scripts slow_world = slow_scripts"
    "run_history sample_sha256 (rivals 0) (w_db slow_world) = [sample_pending]"
    "w_others slow_world = (\<lambda>n. run_history sample_sha256 (rivals n))"
    "Worker_Ops ?W = pg_store sample_repository sample_ctx" "Worker_LeaseDuration ?W = 2000000000"
    by (simp_all add: slow_world_def slow_scripts_def rivals_def pg_worker_def)
  have due: "claimable sample_script (Worker_Queue ?W) [sample_pending] = [sample_pending]"
    using sample_claimable by (simp add: pg_worker_def)
  have tok: "newLeaseToken (s_entropy (w_scripts slow_world (w_next slow_world))) = Inr sample_token"
    and heal: "healthy (w_scripts slow_world (w_next slow_world))" by (simp_all add: w(1-3))
  have cy: "cy_ctx_err slow_cycle = None" "at_during (cy_attempt slow_cycle) = replicate 1 SelTick"
    "at_after (cy_attempt slow_cycle) = replicate 0 SelTick" "at_ctx_err (cy_attempt slow_cycle) = None"
    by (simp_all add: slow_cycle_def sample_cycle_def sample_attempt_def)
  have "c_id sample_pending = sample_id" by (simp add: sample_pending_def)
  with run_cycle_settles [OF refl refl refl refl refl pg_worker_valid w(6) sample_usable slow_world_inv
      sample_sha256_size w(5) heal tok _ _ _ cy, of ?h "HandlerReturned None"] slow_kept_alive [of ?h] show ?thesis
    by (auto simp: due w callHandler_def)
qed

end
