(* ===== verification/System.thy ===== *)
theory System
  imports Service
begin

text \<open>
  Workers inside the queue machine: a run of a worker on PostgreSQL, beside any other callers,
  is a history of the machine, made of the calls the worker is observed to make in the order
  in which it makes them. So everything proved about histories holds of running systems.
\<close>

section \<open>The calls of a run\<close>

fun calls_of :: "observed list \<Rightarrow> call list" where
  "calls_of [] = []"
| "calls_of (Claimed_obs request _ _ # log) = Claim_call request # calls_of log"
| "calls_of (Heartbeat_obs lease d _ # log) = Heartbeat_call lease d # calls_of log"
| "calls_of (Complete_obs lease _ _ # log) = Complete_call lease # calls_of log"
| "calls_of (Fail_obs lease failure _ _ # log) = Fail_call lease failure # calls_of log"
| "calls_of (Handled_obs _ _ # log) = calls_of log"

text \<open>
  The history of the table while a worker makes these calls: before its call number \<open>n\<close> come
  the events \<open>evs n\<close> of everybody else.
\<close>

fun system_events ::
  "(nat \<Rightarrow> script) \<Rightarrow> (nat \<Rightarrow> event list) \<Rightarrow> repository \<Rightarrow> ctx \<Rightarrow> nat \<Rightarrow> call list \<Rightarrow> event list" where
  "system_events scripts evs repository ctx n [] = []"
| "system_events scripts evs repository ctx n (c # calls) =
     evs n @ \<lparr>ev_script = scripts n, ev_repository = repository, ev_ctx = ctx, ev_call = c\<rparr> #
     system_events scripts evs repository ctx (Suc n) calls"

lemma calls_of_append [simp]: "calls_of (log @ log') = calls_of log @ calls_of log'"
  by (induction log rule: calls_of.induct) simp_all

lemma system_events_snoc:
  "system_events scripts evs repository ctx n (calls @ [c]) =
     system_events scripts evs repository ctx n calls @ evs (n + length calls) @
     [\<lparr>ev_script = scripts (n + length calls), ev_repository = repository, ev_ctx = ctx, ev_call = c\<rparr>]"
  by (induction calls arbitrary: n) simp_all

text \<open>The observed world is where the history of the observed calls leads.\<close>

definition traced ::
  "(bytes \<Rightarrow> bytes) \<Rightarrow> (nat \<Rightarrow> script) \<Rightarrow> (nat \<Rightarrow> event list) \<Rightarrow> repository \<Rightarrow> ctx \<Rightarrow> nat \<Rightarrow> db \<Rightarrow>
   pg_world \<times> observed list \<Rightarrow> bool" where
  "traced sha256 scripts evs repository ctx n db = (\<lambda>(w, log).
     w_scripts w = scripts \<and> w_others w = (\<lambda>n. run_history sha256 (evs n)) \<and>
     w_next w = n + length (calls_of log) \<and>
     w_db w = run_history sha256 (system_events scripts evs repository ctx n (calls_of log)) db)"

text \<open>One more call: the table after it is the table after its event.\<close>

lemma traced_call:
  assumes "traced sha256 scripts evs repository ctx n db (w, log)" "calls_of [ob] = [c]"
    "\<And>s db. fst (op s db) = run_event sha256 \<lparr>ev_script = s, ev_repository = repository, ev_ctx = ctx, ev_call = c\<rparr> db"
    "pg_call op w = (w', v)"
  shows "traced sha256 scripts evs repository ctx n db (w', log @ [ob])"
proof -
  have w: "w_scripts w = scripts" "w_others w = (\<lambda>n. run_history sha256 (evs n))" "w_next w = n + length (calls_of log)"
    "w_db w = run_history sha256 (system_events scripts evs repository ctx n (calls_of log)) db"
    using assms(1) by (simp_all add: traced_def)
  obtain db' v' where r: "op (w_scripts w (w_next w)) (w_others w (w_next w) (w_db w)) = (db', v')" by fastforce
  have "w' = w\<lparr>w_db := db', w_next := Suc (w_next w)\<rparr>" using assms(4) r by (simp add: pg_call_def)
  moreover have "db' = run_history sha256 (system_events scripts evs repository ctx n (calls_of log @ [c])) db"
    using r assms(3) [of "w_scripts w (w_next w)" "w_others w (w_next w) (w_db w)"] w
    by (simp add: system_events_snoc run_history_append)
  ultimately show ?thesis using w(1-3) assms(2) by (simp add: traced_def)
qed


interpretation tr: store_invariant "recording (pg_store repository ctx)" "traced sha256 scripts evs repository ctx n db"
  for repository ctx sha256 scripts evs n db
proof
  fix u u' :: "pg_world \<times> observed list" and request lease d failure job err
  assume inv: "traced sha256 scripts evs repository ctx n db u"
  obtain w log where u: "u = (w, log)" by fastforce
  note call = traced_call [OF inv [unfolded u]]
  note ops = recording_def pg_store_def run_event_def
  show "traced sha256 scripts evs repository ctx n db u'"
    if a: "st_Claim (recording (pg_store repository ctx)) u request = (u', job, err)"
  proof -
    obtain w' v where c: "pg_call (\<lambda>s. Claim s repository ctx request) w = (w', v)" by (metis surj_pair)
    with a u have "u' = (w', log @ [Claimed_obs request job err])" by (auto simp: ops split: prod.splits)
    with call [OF _ _ c, of _ "Claim_call request"] show ?thesis by (simp add: run_event_def)
  qed
  show "traced sha256 scripts evs repository ctx n db u'"
    if a: "st_Heartbeat (recording (pg_store repository ctx)) u lease d = (u', err)"
  proof -
    obtain w' v where c: "pg_call (\<lambda>s db. case Heartbeat s repository ctx lease d db of (db', _, err) \<Rightarrow> (db', err)) w = (w', v)"
      by (metis surj_pair)
    with a u have "u' = (w', log @ [Heartbeat_obs lease d err])" by (auto simp: ops split: prod.splits)
    with call [OF _ _ c, of _ "Heartbeat_call lease d"] show ?thesis by (simp add: run_event_def split: prod.splits)
  qed
  show "traced sha256 scripts evs repository ctx n db u'"
    if a: "st_Complete (recording (pg_store repository ctx)) u lease = (u', job, err)"
  proof -
    obtain w' v where c: "pg_call (\<lambda>s. Complete s repository ctx lease) w = (w', v)" by (metis surj_pair)
    with a u have "u' = (w', log @ [Complete_obs lease job err])" by (auto simp: ops split: prod.splits)
    with call [OF _ _ c, of _ "Complete_call lease"] show ?thesis by (simp add: run_event_def)
  qed
  show "traced sha256 scripts evs repository ctx n db u'"
    if a: "st_Fail (recording (pg_store repository ctx)) u lease failure = (u', job, err)"
  proof -
    obtain w' v where c: "pg_call (\<lambda>s. Fail s repository ctx lease failure) w = (w', v)" by (metis surj_pair)
    with a u have "u' = (w', log @ [Fail_obs lease failure job err])" by (auto simp: ops split: prod.splits)
    with call [OF _ _ c, of _ "Fail_call lease failure"] show ?thesis by (simp add: run_event_def)
  qed
qed

section \<open>A run is a history\<close>

lemma reachable_history:
  "reachable sha256 db \<Longrightarrow> list_all event_ok events \<Longrightarrow> reachable sha256 (run_history sha256 events db)"
  by (induction events arbitrary: db) (simp_all add: reachable.step)

text \<open>
  A call this worker may make: a claim of its own, or a call with the lease of a job that a
  confirmed claim of the same run handed out.
\<close>

definition own_call :: "'w Worker \<Rightarrow> observed list \<Rightarrow> call \<Rightarrow> bool" where
  "own_call worker log c \<longleftrightarrow> c = Claim_call (worker_claim worker) \<or>
     (\<exists>job. Claimed_obs (worker_claim worker) job None \<in> set log \<and>
       (c = Heartbeat_call (Job_Lease job) (Worker_LeaseDuration worker) \<or> c = Complete_call (Job_Lease job) \<or>
        (\<exists>failure. c = Fail_call (Job_Lease job) failure)))"

lemma in_calls_of:
  "c \<in> set (calls_of log) \<Longrightarrow> \<exists>ob \<in> set log. calls_of [ob] = [c]"
  by (induction log rule: calls_of.induct) auto

lemma run_log_calls:
  assumes "run_log worker log err" "c \<in> set (calls_of log)"
  shows "own_call worker log c"
proof -
  from in_calls_of [OF assms(2)] obtain ob where ob: "ob \<in> set log" "calls_of [ob] = [c]" by blast
  with assms(1) consider job e where "ob = Claimed_obs (worker_claim worker) job e"
    | job where "confirmed worker log job" "attempt_entry worker job ob"
    unfolding run_log_def by blast
  then show ?thesis
    by cases (use ob(2) in \<open>auto simp: own_call_def confirmed_def attempt_entry_def split: observed.splits\<close>)
qed

lemma system_events_ok:
  assumes "\<And>n. clock_sane (s_clock (scripts n))" "\<And>n. list_all event_ok (evs n)" "list_all (own_call worker log) calls"
  shows "list_all event_ok (system_events scripts evs repository ctx n calls)"
  using assms(3) by (induction calls arbitrary: n) (auto simp: assms(1,2) event_ok_def own_call_def)

text \<open>
  C12. A running worker is part of the queue machine. Whatever a whole \<^verbatim>\<open>Run\<close> on PostgreSQL
  does, in any environments and schedules and with any other callers between its calls, the
  table it leaves is that of the history which consists of exactly the store calls it was
  observed to make, in that order, each after the events of the others; and these calls are
  claims of its own queue and heartbeats, for the configured duration, and acknowledgements
  with leases that its own confirmed claims were given, never with another worker's lease or
  one of unknown outcome. So a table that was reachable stays reachable, and all guarantees on
  histories hold for systems of workers.
\<close>

theorem Run_is_history:
  assumes "Worker_Ops worker = pg_store repository rctx" "\<And>handler w job. Worker_Handler worker = Some handler \<Longrightarrow> fst (handler w job) = w"
    "w_others w = (\<lambda>n. run_history sha256 (evs n))" "Run (recorded worker) ctx cycles (w, []) = ((w', log), err)"
  shows "w_db w' = run_history sha256 (system_events (w_scripts w) evs repository rctx (w_next w) (calls_of log)) (w_db w) \<and>
    list_all (own_call worker log) (calls_of log) \<and>
    ((\<forall>n. clock_sane (s_clock (w_scripts w n)) \<and> list_all event_ok (evs n)) \<and> reachable sha256 (w_db w) \<longrightarrow>
      reachable sha256 (w_db w'))"
proof -
  let ?inv = "traced sha256 (w_scripts w) evs repository rctx (w_next w) (w_db w)"
  have "?inv (fst (Run (recorded worker) ctx cycles (w, [])))"
  proof (rule tr.Run_keeps)
    show "Worker_Ops (recorded worker) = recording (pg_store repository rctx)" using assms(1) by simp
    show "?inv (w, [])" using assms(3) by (simp add: traced_def)
    fix handler :: "(pg_world \<times> observed list) Handler" and u job
    assume h: "Worker_Handler (recorded worker) = Some handler" and u: "?inv u"
    then obtain h0 where h0: "Worker_Handler worker = Some h0" "handler = recording_handler h0" by auto
    obtain v log where v: "u = (v, log)" by fastforce
    have "fst (handler u job) = (v, log @ [Handled_obs job (snd (h0 v job))])"
      using assms(2) [OF h0(1), of v job] by (cases "h0 v job") (simp add: h0(2) v recording_handler_def)
    with u v show "?inv (fst (handler u job))" by (simp add: traced_def)
  qed
  then have table: "w_db w' = run_history sha256 (system_events (w_scripts w) evs repository rctx (w_next w) (calls_of log)) (w_db w)"
    using assms(4) by (simp add: traced_def)
  have own: "list_all (own_call worker log) (calls_of log)"
    using run_log_calls [OF Run_recorded [OF assms(4)]] by (simp add: list_all_iff)
  with table reachable_history system_events_ok [OF _ _ own] show ?thesis by auto
qed


theorem Run_is_history_witness:
  "reachable sample_sha256 (w_db (fst (fst (Run (recorded (pg_worker (\<lambda>w job. (w, HandlerPanicked)))) sample_ctx
     [sample_cycle, sample_cycle] (sample_world\<lparr>w_db := []\<rparr>, [])))))"
proof -
  let ?W = "pg_worker (\<lambda>w job. (w, HandlerPanicked))" and ?w = "sample_world\<lparr>w_db := []\<rparr>"
  obtain w' log err where run: "Run (recorded ?W) sample_ctx [sample_cycle, sample_cycle] (?w, []) = ((w', log), err)"
    by (metis surj_pair)
  have w: "Worker_Ops ?W = pg_store sample_repository sample_ctx" "w_others ?w = (\<lambda>n. run_history sample_sha256 [])"
    "Worker_Handler ?W = Some h \<Longrightarrow> fst (h v job) = v" for h v job
    by (auto simp: pg_worker_def sample_world_def fun_eq_iff)
  note history = Run_is_history [where worker = ?W and evs = "\<lambda>_. []", OF w(1) _ w(2) run, THEN conjunct2, THEN conjunct2, THEN mp]
  have "clock_sane (s_clock (w_scripts ?w n))" for n by (simp add: sample_world_def)
  then have "reachable sample_sha256 (w_db w')"
    by (intro history) (simp_all add: w(3) reachable.empty)
  then show ?thesis by (simp only: run fst_conv)
qed

end
