(* ===== verification/Lines.thy ===== *)
theory Lines
  imports Machine
begin

text \<open>
  Standing in line: how the order in which \<^verbatim>\<open>claimSQL\<close> takes rows up carries over to whole
  histories. A row that stands in line for something, and whose time has come, has finitely
  many rows ahead of it; no call of the library adds one. The locale \<open>line\<close> says what it means
  to stand in line and to be served, \<open>served_line\<close> adds that some calls serve; its clients are
  the two subqueries of \<^verbatim>\<open>claimSQL\<close>.
\<close>

section \<open>The rows ahead of a row\<close>

definition due_at :: "row \<Rightarrow> timestamptz" where
  "due_at r = (if c_state r = StatePending then c_available_at r else until_key r)"

text \<open>Every reading of the clock is after the due time.\<close>

definition overdue :: "clock \<Rightarrow> row \<Rightarrow> bool" where
  "overdue clk r \<longleftrightarrow> (\<forall>n i. due_at r < clk n i)"

definition ahead_of :: "(row \<Rightarrow> bool) \<Rightarrow> row \<Rightarrow> row \<Rightarrow> bool" where
  "ahead_of standing r x \<longleftrightarrow> c_queue x = c_queue r \<and> standing x \<and> claim_key x < claim_key r"

definition jobs_ahead :: "(row \<Rightarrow> bool) \<Rightarrow> row \<Rightarrow> db \<Rightarrow> nat" where
  "jobs_ahead standing r db = length (filter (ahead_of standing r) db)"

lemma claim_key_due: "claim_key r = (due_at r, c_created_at r, c_id r)"
  by (simp add: claim_key_def due_at_def state_defs)

lemma ahead_due: "ahead_of standing r x \<Longrightarrow> due_at x \<le> due_at r"
  by (auto simp: ahead_of_def claim_key_due less_prod_def)

text \<open>No statement writes a row with an earlier due time than the clock it reads.\<close>

lemma later_not_ahead: "due_at r < due_at x \<Longrightarrow> \<not> ahead_of standing r x"
  using ahead_due leD by blast

lemma written_due:
  "due_at (claimed_row clk token worker us x) = clk 5 (c_id x) + us"
  "due_at (redriven_row clk x) = clk 0 (c_id x)"
  "c_state x = StateRunning \<Longrightarrow> due_at (heartbeat_row clk us x) = clk 0 (c_id x) + us"
  "\<not> (permanent \<or> c_attempts x \<ge> c_max_attempts x) \<Longrightarrow>
     due_at (failed_row clk message permanent us x) = clk 0 (c_id x) + us"
  by (simp_all add: due_at_def until_key_def claimed_row_def redriven_row_def heartbeat_row_def failed_row_def state_defs)

text \<open>Counting rows by their ids.\<close>

definition ids_where :: "(row \<Rightarrow> bool) \<Rightarrow> db \<Rightarrow> string set" where
  "ids_where P db = {k. \<exists>x. find_row k db = Some x \<and> P x}"

lemma ids_where_eq: "primary_key db \<Longrightarrow> ids_where P db = c_id ` set (filter P db)"
  by (auto simp: ids_where_def image_def dest: find_row_Some intro: find_row_member)

lemma card_ids_where:
  assumes "primary_key db"
  shows "card (ids_where P db) = length (filter P db)" "finite (ids_where P db)"
proof -
  have "distinct (map c_id (filter P db))"
    using assms by (simp add: primary_key_def distinct_map_filter)
  from distinct_card [OF this] show "card (ids_where P db) = length (filter P db)"
    by (simp add: ids_where_eq [OF assms])
  show "finite (ids_where P db)" by (simp add: ids_where_eq [OF assms])
qed

section \<open>Steps that respect the order\<close>

text \<open>
  One row under one call: it does not move ahead of \<open>r\<close>, and \<open>r\<close> itself stays as it is
  unless it is served.
\<close>

definition onward :: "(row \<Rightarrow> bool) \<Rightarrow> (row \<Rightarrow> row \<Rightarrow> bool) \<Rightarrow> row \<Rightarrow> row \<Rightarrow> row \<Rightarrow> bool" where
  "onward standing served r x x' \<longleftrightarrow>
     (ahead_of standing r x' \<longrightarrow> ahead_of standing r x) \<and> (x = r \<longrightarrow> x' = r \<or> served r x')"

definition orderly :: "(row \<Rightarrow> bool) \<Rightarrow> (row \<Rightarrow> row \<Rightarrow> bool) \<Rightarrow> row \<Rightarrow> db \<Rightarrow> db \<Rightarrow> bool" where
  "orderly standing served r db db' \<longleftrightarrow>
     (\<forall>k x. find_row k db = Some x \<longrightarrow> (\<exists>x'. find_row k db' = Some x' \<and> onward standing served r x x')) \<and>
     (\<forall>k x'. find_row k db = None \<longrightarrow> find_row k db' = Some x' \<longrightarrow> \<not> ahead_of standing r x')"

lemma onward_refl: "onward standing served r x x"
  by (simp add: onward_def)

lemma orderly_refl: "orderly standing served r db db"
  by (auto simp: orderly_def onward_refl)

lemma orderly_set_row:
  assumes "find_row k db = Some x" "c_id x' = k" "onward standing served r x x'"
  shows "orderly standing served r db (set_row k x' db)"
  using assms by (simp add: orderly_def find_set_row [OF assms(1,2)] onward_refl)

lemma orderly_ahead:
  assumes "orderly standing served r db db'"
  shows "ids_where (ahead_of standing r) db' \<subseteq> ids_where (ahead_of standing r) db"
proof
  fix k assume "k \<in> ids_where (ahead_of standing r) db'"
  then obtain x' where x': "find_row k db' = Some x'" "ahead_of standing r x'" by (auto simp: ids_where_def)
  then show "k \<in> ids_where (ahead_of standing r) db"
    using assms by (cases "find_row k db") (fastforce simp: orderly_def onward_def ids_where_def)+
qed

text \<open>A due job holds no live lease, so no acknowledgement reaches it.\<close>

lemma live_not_due:
  assumes "live_row now lease db = Some x" "due_at r < now"
  shows "x \<noteq> r"
  using assms by (auto simp: live_row_Some lease_live_def due_at_def until_key_def state_defs split: option.splits)

lemma fenced_orderly:
  assumes "live_row now lease db = Some x" "due_at r < now" "c_id x' = c_id x" "\<not> ahead_of standing r x'"
  shows "orderly standing served r db (set_row (Lease_JobID lease) x' db)"
proof (rule orderly_set_row)
  show f: "find_row (Lease_JobID lease) db = Some x" using assms(1) by (simp add: live_row_Some)
  show "c_id x' = Lease_JobID lease" using find_row_Some [OF f] assms(3) by simp
  show "onward standing served r x x'" using live_not_due [OF assms(1,2)] assms(4) by (simp add: onward_def)
qed

section \<open>The contract of a line\<close>

text \<open>
  What a client could still do to overtake: enqueue into the same queue with an
  \<^verbatim>\<open>AvailableAt\<close> that is not after the due time of \<open>r\<close>, if new jobs join the line at all, or
  cancel \<open>r\<close>. The database clock has passed the due time.
\<close>

definition backdated :: "row \<Rightarrow> EnqueueRequest \<Rightarrow> bool" where
  "backdated r request \<longleftrightarrow> Enqueue_Queue request = c_queue r \<and>
     (case availableArgument (Enqueue_AvailableAt request) of None \<Rightarrow> False | Some t \<Rightarrow> t \<le> due_at r)"

definition no_overtaking :: "bool \<Rightarrow> row \<Rightarrow> event \<Rightarrow> bool" where
  "no_overtaking newcomers r e \<longleftrightarrow> overdue (s_clock (ev_script e)) r \<and>
     (case ev_call e of
        Enqueue_call request \<Rightarrow> \<not> (newcomers \<and> backdated r request)
      | EnqueueTx_call tx request commit \<Rightarrow> \<not> (newcomers \<and> backdated r request)
      | Cancel_call i \<Rightarrow> i \<noteq> c_id r
      | _ \<Rightarrow> True)"

locale line =
  fixes standing :: "row \<Rightarrow> bool"
    and newcomers :: bool
    and served :: "row \<Rightarrow> row \<Rightarrow> bool"
  assumes in_line: "standing r \<Longrightarrow> c_state r = StatePending \<or> c_state r = StateRunning"
    and newcomer: "standing r \<Longrightarrow> c_state r = StatePending \<Longrightarrow> newcomers"
    and buried: "standing r \<Longrightarrow> exhausted_match clk queue r \<Longrightarrow> served r (exhausted_row clk r)"
    and handed: "standing r \<Longrightarrow> claim_eligible clk queue r \<Longrightarrow> served r (claimed_row clk token worker us r)"
begin

lemma written_rows_behind:
  assumes "overdue clk r" "0 \<le> us"
  shows "\<not> ahead_of standing r (claimed_row clk token worker us x)" "\<not> ahead_of standing r (exhausted_row clk x)"
    "\<not> ahead_of standing r (completed_row clk x)" "\<not> ahead_of standing r (failed_row clk message permanent us x)"
    "\<not> ahead_of standing r (canceled_row clk x)" "\<not> ahead_of standing r (redriven_row clk x)"
    "c_state x = StateRunning \<Longrightarrow> \<not> ahead_of standing r (heartbeat_row clk us x)"
proof -
  have later: "due_at r < clk n i + us" "due_at r < clk n i" for n i
    using assms by (auto simp: overdue_def intro: less_le_trans [of _ "clk n i"])
  have final: "c_state y = StateDead \<Longrightarrow> \<not> ahead_of standing r y" "c_state y = StateSucceeded \<Longrightarrow> \<not> ahead_of standing r y"
    "c_state y = StateCanceled \<Longrightarrow> \<not> ahead_of standing r y" for y
    using in_line [of y] by (auto simp: ahead_of_def)
  show "\<not> ahead_of standing r (claimed_row clk token worker us x)" "\<not> ahead_of standing r (redriven_row clk x)"
    "c_state x = StateRunning \<Longrightarrow> \<not> ahead_of standing r (heartbeat_row clk us x)"
    by (rule later_not_ahead, simp add: written_due later)+
  show "\<not> ahead_of standing r (exhausted_row clk x)" "\<not> ahead_of standing r (completed_row clk x)" "\<not> ahead_of standing r (canceled_row clk x)"
    using final(1-3) by (simp_all add: exhausted_row_def completed_row_def canceled_row_def state_defs)
  show "\<not> ahead_of standing r (failed_row clk message permanent us x)"
  proof (cases "permanent \<or> c_attempts x \<ge> c_max_attempts x")
    case True
    then show ?thesis using final(1) by (simp add: failed_row_def state_defs)
  next
    case False
    then show ?thesis by (intro later_not_ahead) (simp add: written_due later)
  qed
qed

lemma enqueuePrepared_orderly:
  assumes "enqueuePrepared sha256 s n (cloneEnqueue request) db = (db', v, err)"
    "enqueue_admitted sha256 s request" "\<not> (newcomers \<and> backdated r request)" "overdue (s_clock s) r"
  shows "orderly standing served r db db'"
  using assms(1,2)
proof (cases rule: enqueuePrepared_cases)
  case (inserted i)
  let ?x = "request_row sha256 (s_clock s) i (cloneEnqueue request)"
  have "c_queue ?x = Enqueue_Queue request" by (simp add: request_row_def inserted_row_def)
  moreover have "due_at ?x = (case availableArgument (Enqueue_AvailableAt request) of Some t \<Rightarrow> t | None \<Rightarrow> s_clock s 0 i)"
    by (simp add: due_at_def request_row_def inserted_row_def state_defs)
  moreover have "c_state ?x = StatePending" by (simp add: request_row_def)
  ultimately have "\<not> ahead_of standing r ?x"
    using assms(3,4) ahead_due [of standing r ?x] newcomer [of ?x]
    by (auto simp: backdated_def ahead_of_def overdue_def not_le [symmetric] split: option.splits)
  then show ?thesis
    unfolding inserted(5) by (auto simp: orderly_def onward_refl find_row_append split: if_splits)
qed (simp add: orderly_refl)

lemma Enqueue_orderly:
  assumes "Enqueue sha256 s repository ctx request db = (db', v, err)" "enqueue_sane sha256 s request"
    "\<not> (newcomers \<and> backdated r request)" "overdue (s_clock s) r"
  shows "orderly standing served r db db'"
  using assms(1)
proof (cases rule: Enqueue_cases)
  case 2
  then have adm: "enqueue_admitted sha256 s request"
    using assms(2) by (simp add: enqueue_admitted_def enqueue_sane_def)
  show ?thesis
    by (rule transact_invariant [OF 2(2), of "orderly standing served r db"])
      (use orderly_refl enqueuePrepared_orderly [OF _ adm assms(3,4)] in blast)+
qed (simp add: orderly_refl)

lemma EnqueueTx_orderly:
  assumes "EnqueueTx sha256 s repository ctx tx request db = (db', v, err)" "enqueue_sane sha256 s request"
    "\<not> (newcomers \<and> backdated r request)" "overdue (s_clock s) r"
  shows "orderly standing served r db db'"
proof -
  consider "db' = db" | "validateEnqueue request = None"
    "enqueuePrepared sha256 s 1 (cloneEnqueue request) db = (db', v, err)"
    using assms(1) by (auto simp: EnqueueTx_def split: if_splits option.splits)
  then show ?thesis
  proof cases
    case 2
    then have "enqueue_admitted sha256 s request"
      using assms(2) by (simp add: enqueue_admitted_def enqueue_sane_def)
    from enqueuePrepared_orderly [OF 2(2) this assms(3,4)] show ?thesis .
  qed (simp add: orderly_refl)
qed

lemma Claim_orderly:
  assumes "Claim s repository ctx request db = (db', v, err)" "db_ok db" "standing r"
    "overdue (s_clock s) r"
  shows "orderly standing served r db db'"
proof -
  have "\<exists>x'. find_row k db' = Some x' \<and> onward standing served r x x'" if f: "find_row k db = Some x" for k x
    using assms(1) db_ok_D(1) [OF assms(2)] f
  proof (cases rule: Claim_row)
    case same
    then show ?thesis using onward_refl by blast
  next
    case exhausted
    then show ?thesis using written_rows_behind(2) [OF assms(4), of 0] buried [OF assms(3)] by (auto simp: onward_def)
  next
    case (given token)
    have "0 \<le> Microseconds (Claim_LeaseDuration request)" using Microseconds_claim given(2) by blast
    then have "\<not> ahead_of standing r (granted s request token x)" using written_rows_behind(1) [OF assms(4)] by blast
    with given show ?thesis using handed [OF assms(3)] by (auto simp: onward_def)
  qed
  moreover have "find_row k db' = None" if "find_row k db = None" for k
    using assms(1) by (cases rule: Claim_cases) (use that find_claim_table [OF db_ok_D(1) [OF assms(2)]] in auto)
  ultimately show ?thesis by (simp add: orderly_def)
qed

lemma fenced_calls_orderly:
  assumes "primary_key db" "overdue (s_clock s) r"
  shows "Complete s repository ctx lease db = (db', v, err) \<Longrightarrow> orderly standing served r db db'"
    "Fail s repository ctx lease failure db = (db', v, err) \<Longrightarrow> orderly standing served r db db'"
    "Heartbeat s repository ctx lease d db = (db', u, err) \<Longrightarrow> orderly standing served r db db'"
proof -
  note behind = written_rows_behind [OF assms(2)]
  have now: "due_at r < s_clock s n i" for n i using assms(2) by (simp add: overdue_def)
  show "orderly standing served r db db'" if "Complete s repository ctx lease db = (db', v, err)"
    using that assms(1)
  proof (cases rule: Complete_cases)
    case (applied x)
    show ?thesis unfolding applied(2)
      by (rule fenced_orderly [OF applied(1) now]) (simp_all add: behind(3) [of 0] identity_D(1) [OF transition_identity(2)])
  qed (simp add: orderly_refl)
  show "orderly standing served r db db'" if "Fail s repository ctx lease failure db = (db', v, err)"
    using that assms(1)
  proof (cases rule: Fail_cases)
    case (applied x)
    have "0 \<le> Microseconds (Failure_RetryAfter failure)"
      using applied(1) by (auto simp: validateFailure_None Microseconds_nonneg)
    then show ?thesis unfolding applied(3)
      by (intro fenced_orderly [OF applied(2) now]) (simp_all add: behind(4) identity_D(1) [OF transition_identity(4)])
  qed (simp add: orderly_refl)
  show "orderly standing served r db db'" if "Heartbeat s repository ctx lease d db = (db', u, err)"
    using that assms(1)
  proof (cases rule: Heartbeat_cases)
    case (applied x)
    have "0 \<le> Microseconds d" using applied(1) by (auto simp: Microseconds_nonneg go_defs)
    then show ?thesis unfolding applied(4)
      by (intro fenced_orderly [OF applied(3) now]) (simp_all add: behind(7) live_row_D(2) [OF applied(3)] identity_D(1) [OF transition_identity(1)])
  qed (simp add: orderly_refl)
qed

lemma operator_calls_orderly:
  assumes "primary_key db" "overdue (s_clock s) r" "standing r"
  shows "Cancel s repository ctx i db = (db', v, err) \<Longrightarrow> i \<noteq> c_id r \<Longrightarrow> orderly standing served r db db'"
    "Redrive s repository ctx i db = (db', v, err) \<Longrightarrow> orderly standing served r db db'"
proof -
  note behind = written_rows_behind [OF assms(2), of 0]
  show "orderly standing served r db db'" if "Cancel s repository ctx i db = (db', v, err)" "i \<noteq> c_id r"
    using that(1) assms(1)
  proof (cases rule: Cancel_cases)
    case (applied x)
    have "c_id x = i" using find_row_Some [OF applied(1)] by simp
    with that(2) applied(1) show ?thesis unfolding applied(3)
      by (intro orderly_set_row) (auto simp: onward_def behind(5), simp add: canceled_row_def)
  qed (simp add: orderly_refl)
  show "orderly standing served r db db'" if "Redrive s repository ctx i db = (db', v, err)"
    using that assms(1)
  proof (cases rule: Redrive_cases)
    case (applied x)
    have "c_id x = i" "x \<noteq> r"
      using find_row_Some [OF applied(1)] applied(2) in_line [OF assms(3)] by (auto simp: redrivable_def state_defs)
    with applied(1) show ?thesis unfolding applied(3)
      by (intro orderly_set_row) (auto simp: onward_def behind(6), simp add: redriven_row_def)
  qed (simp add: orderly_refl)
qed

lemma run_event_orderly:
  assumes "sha256_size sha256" "event_ok e" "db_ok db" "standing r" "no_overtaking newcomers r e"
  shows "orderly standing served r db (run_event sha256 e db)"
proof -
  have o: "overdue (s_clock (ev_script e)) r" using assms(5) by (simp add: no_overtaking_def)
  have pk: "primary_key db" using assms(3) by (rule db_ok_D)
  note after = after_call [where P = "orderly standing served r db"]
  show ?thesis
  proof (cases "ev_call e")
    case (Enqueue_call request)
    then have sane: "enqueue_sane sha256 (ev_script e) request" "\<not> (newcomers \<and> backdated r request)"
      using assms(1,2,5) by (simp_all add: event_ok_def enqueue_sane_def no_overtaking_def)
    with Enqueue_call show ?thesis by (simp add: run_event_def) (rule after, erule Enqueue_orderly [OF _ sane o])
  next
    case (EnqueueTx_call tx request commit)
    then have sane: "enqueue_sane sha256 (ev_script e) request" "\<not> (newcomers \<and> backdated r request)"
      using assms(1,2,5) by (simp_all add: event_ok_def enqueue_sane_def no_overtaking_def)
    have "orderly standing served r db (fst (EnqueueTx sha256 (ev_script e) (ev_repository e) (ev_ctx e) tx request db))"
      by (rule after, erule EnqueueTx_orderly [OF _ sane o])
    with EnqueueTx_call show ?thesis by (simp add: run_event_def orderly_refl)
  next
    case (Claim_call request)
    then show ?thesis by (simp add: run_event_def) (rule after, erule Claim_orderly [OF _ assms(3,4) o])
  next
    case (Heartbeat_call lease d)
    then show ?thesis by (simp add: run_event_def) (rule after, erule fenced_calls_orderly(3) [OF pk o])
  next
    case (Complete_call lease)
    then show ?thesis by (simp add: run_event_def) (rule after, erule fenced_calls_orderly(1) [OF pk o])
  next
    case (Fail_call lease failure)
    then show ?thesis by (simp add: run_event_def) (rule after, erule fenced_calls_orderly(2) [OF pk o])
  next
    case (Cancel_call i)
    then have "i \<noteq> c_id r" using assms(5) by (simp add: no_overtaking_def)
    with Cancel_call show ?thesis
      by (simp add: run_event_def) (rule after, erule operator_calls_orderly(1) [OF pk o assms(4)], simp)
  next
    case (Redrive_call i)
    then show ?thesis by (simp add: run_event_def) (rule after, erule operator_calls_orderly(2) [OF pk o assms(4)])
  qed
qed

end


section \<open>Calls that serve\<close>

text \<open>A healthy claim of the queue of \<open>r\<close> that does not find \<open>r\<close> locked by somebody else.\<close>

definition serves :: "row \<Rightarrow> event \<Rightarrow> bool" where
  "serves r e \<longleftrightarrow>
     (case ev_call e of
        Claim_call request \<Rightarrow>
          Claim_Queue request = c_queue r \<and> validateClaim request = None \<and>
          healthy (ev_script e) \<and> usable (ev_repository e) (ev_ctx e) \<and>
          drawn_token (ev_script e) \<noteq> None \<and> c_id r \<notin> set (s_locked (ev_script e))
      | _ \<Rightarrow> False)"

text \<open>Such a claim runs its statement on the table as it is.\<close>

lemma serves_run:
  assumes "serves r e" "event_ok e" "db_ok db"
  obtains request token where "Claim_Queue request = c_queue r" "0 \<le> Microseconds (Claim_LeaseDuration request)"
    "c_id r \<notin> set (s_locked (ev_script e))" "run_event sha256 e db = claim_table (ev_script e) request token db"
proof -
  obtain request token where req: "ev_call e = Claim_call request" "Claim_Queue request = c_queue r"
    and ok: "validateClaim request = None" "healthy (ev_script e)" "usable (ev_repository e) (ev_ctx e)"
      "newLeaseToken (s_entropy (ev_script e)) = Inr token" "c_id r \<notin> set (s_locked (ev_script e))"
    using assms(1) by (auto simp: serves_def drawn_token_def split: call.splits sum.splits)
  have "run_event sha256 e db = claim_table (ev_script e) request token db"
    using Claim_run [OF ok(2,3,1,4) assms(3)] assms(2) by (simp add: run_event_def req(1) event_ok_def)
  with req(2) ok(5) Microseconds_claim [OF ok(1)] that show ?thesis by blast
qed

text \<open>
  Each serving call serves \<open>r\<close> or takes at least \<open>batch\<close> rows ahead of it out of the line.
\<close>

locale served_line = line standing newcomers served
  for standing :: "row \<Rightarrow> bool" and newcomers :: bool and served :: "row \<Rightarrow> row \<Rightarrow> bool" +
  fixes batch :: nat
  assumes serving: "serves r e \<Longrightarrow> event_ok e \<Longrightarrow> db_ok db \<Longrightarrow> find_row i db = Some r \<Longrightarrow> standing r \<Longrightarrow>
      overdue (s_clock (ev_script e)) r \<Longrightarrow>
      (\<exists>r'. find_row i (run_event sha256 e db) = Some r' \<and> served r r') \<or>
      (\<exists>K \<subseteq> ids_where (ahead_of standing r) db.
         batch \<le> card K \<and> K \<inter> ids_where (ahead_of standing r) (run_event sha256 e db) = {})"
begin

text \<open>One call: the row is served, or it waits on with at most as many rows ahead, a batch less after a serving call.\<close>

lemma run_event_progress:
  assumes "sha256_size sha256" "event_ok e" "db_ok db" "find_row i db = Some r" "standing r" "no_overtaking newcomers r e"
  obtains (at_last) r' where "find_row i (run_event sha256 e db) = Some r'" "served r r'"
  | (waits) "find_row i (run_event sha256 e db) = Some r"
      "jobs_ahead standing r (run_event sha256 e db) + (if serves r e then batch else 0) \<le> jobs_ahead standing r db"
proof -
  let ?db' = "run_event sha256 e db" and ?A = "ids_where (ahead_of standing r)"
  have ord: "orderly standing served r db ?db'" using run_event_orderly [OF assms(1-3,5,6)] .
  have pk: "primary_key db" "primary_key ?db'"
    using run_event_lawful [OF assms(1-3)] assms(3) by (auto simp: lawful_def dest: db_ok_D)
  note card = card_ids_where [OF pk(1)] card_ids_where [OF pk(2)]
  from ord assms(4) obtain r' where r': "find_row i ?db' = Some r'" "r' = r \<or> served r r'"
    by (fastforce simp: orderly_def onward_def)
  show ?thesis
  proof (cases "served r r'")
    case False
    have "card (?A ?db') + batch \<le> card (?A db)" if "serves r e"
    proof -
      have "overdue (s_clock (ev_script e)) r" using assms(6) by (simp add: no_overtaking_def)
      from serving [OF that assms(2-5) this, of sha256] r'(1) False obtain K where
        K: "K \<subseteq> ?A db" "batch \<le> card K" "K \<inter> ?A ?db' = {}" by auto
      have "card (?A ?db') + card K = card (?A ?db' \<union> K)"
        using K(1,3) card(2,4) by (intro card_Un_disjoint [symmetric]) (auto dest: finite_subset)
      also have "\<dots> \<le> card (?A db)" using orderly_ahead [OF ord] K(1) card(2) by (intro card_mono) auto
      finally show ?thesis using K(2) by simp
    qed
    moreover have "card (?A ?db') \<le> card (?A db)" using orderly_ahead [OF ord] card(2) by (rule card_mono [rotated])
    ultimately show ?thesis
      using card(1,3) waits r' False by (cases "serves r e") (simp_all add: jobs_ahead_def)
  qed (use at_last r'(1) in blast)
qed

lemma served_at_last:
  assumes "sha256_size sha256" "list_all event_ok events" "db_ok db" "find_row i db = Some r" "standing r"
    "list_all (no_overtaking newcomers r) events" "jobs_ahead standing r db < batch * length (filter (serves r) events)"
  shows "\<exists>pre e post r'. events = pre @ e # post \<and> find_row i (run_history sha256 pre db) = Some r \<and>
    find_row i (run_history sha256 (pre @ [e]) db) = Some r' \<and> served r r'"
  using assms(2,3,4,6,7)
proof (induction events arbitrary: db)
  case (Cons e events)
  have e: "event_ok e" "no_overtaking newcomers r e" using Cons.prems by simp_all
  from assms(1) e(1) Cons.prems(2,3) assms(5) e(2) show ?case
  proof (cases rule: run_event_progress)
    case (at_last r')
    then show ?thesis using Cons.prems(3) by (intro exI [of _ "[]"] exI [of _ e] exI [of _ events] exI [of _ r']) simp
  next
    case waits
    have "db_ok (run_event sha256 e db)"
      using run_event_lawful [OF assms(1) e(1) Cons.prems(2)] by (simp add: lawful_def)
    moreover have "jobs_ahead standing r (run_event sha256 e db) < batch * length (filter (serves r) events)"
      using waits(2) Cons.prems(5) by (simp split: if_splits)
    ultimately obtain pre f post r' where "events = pre @ f # post"
      "find_row i (run_history sha256 pre (run_event sha256 e db)) = Some r"
      "find_row i (run_history sha256 (pre @ [f]) (run_event sha256 e db)) = Some r'" "served r r'"
      using Cons.IH [OF _ _ waits(1)] Cons.prems(1,4) by auto
    then show ?thesis by (intro exI [of _ "e # pre"] exI [of _ f] exI [of _ post] exI [of _ r']) simp
  qed
qed simp

end

end
