(* ===== verification/Fairness.thy ===== *)
theory Fairness
  imports Lines
begin

text \<open>
  The two lines \<^verbatim>\<open>claimSQL\<close> serves. Jobs that can still be attempted stand in line to be
  handed out, one per claim: none starves. Jobs whose last attempt expired without an
  acknowledgement stand in line to be buried, a hundred per claim: none stays running.
\<close>

section \<open>Jobs to hand out\<close>

text \<open>A job that can still be handed out: pending, or running with budget left.\<close>

definition waiting :: "row \<Rightarrow> bool" where
  "waiting r \<longleftrightarrow> c_state r = StatePending \<or> c_state r = StateRunning \<and> c_attempts r < c_max_attempts r"

definition handed_out :: "row \<Rightarrow> row \<Rightarrow> bool" where
  "handed_out r r' \<longleftrightarrow> c_attempts r' = c_attempts r + 1"

lemma waiting_eligible:
  assumes "row_ok r" "waiting r" "\<And>n. due_at r \<le> clk n (c_id r)"
  shows "claim_eligible clk (c_queue r) r"
  using assms row_ok_running(3) [OF assms(1)]
  by (auto simp: waiting_def claim_eligible_def due_at_def expired_def until_key_def state_defs
      split: option.splits if_splits)

interpretation wait: line waiting True handed_out
  by unfold_locales
    (auto simp: waiting_def handed_out_def claimed_row_def exhausted_match_def state_defs)

lemma waiting_serving:
  assumes "serves r e" "event_ok e" "db_ok db" "find_row i db = Some r" "waiting r" "overdue (s_clock (ev_script e)) r"
  shows "(\<exists>r'. find_row i (run_event sha256 e db) = Some r' \<and> handed_out r r') \<or>
    (\<exists>K \<subseteq> ids_where (ahead_of waiting r) db.
       1 \<le> card K \<and> K \<inter> ids_where (ahead_of waiting r) (run_event sha256 e db) = {})"
proof -
  let ?s = "ev_script e"
  obtain request token where req: "Claim_Queue request = c_queue r" "0 \<le> Microseconds (Claim_LeaseDuration request)"
    "c_id r \<notin> set (s_locked ?s)" "run_event sha256 e db = claim_table ?s request token db"
    using serves_run [OF assms(1-3)] .
  have pk: "primary_key db" using assms(3) by (rule db_ok_D)
  have r: "r \<in> set db" "c_id r = i" "row_ok r" using find_row_Some find_row_ok assms(3,4) by blast+
  have "claim_eligible (s_clock ?s) (c_queue r) r"
    using waiting_eligible [OF r(3) assms(5)] assms(6) by (simp add: overdue_def less_imp_le)
  then have "r \<in> set (claimable ?s (c_queue r) db)" using r(1) req(3) by (simp add: claimable_def)
  then obtain x where x: "candidate ?s (c_queue r) db = [x]" "x \<in> set (claimable ?s (c_queue r) db)" "claim_key x \<le> claim_key r"
    by (cases rule: candidate_cases [of ?s "c_queue r" db]) auto
  have x2: "x \<in> set db" "claim_eligible (s_clock ?s) (c_queue r) x" using claimable_D [OF x(2)] by blast+
  have "x \<notin> set (reaped ?s (c_queue r) db)" using eligible_not_exhausted [OF x2(2)] reaped_D(2) by blast
  then have f: "find_row (c_id x) db = Some x" "find_row (c_id x) (run_event sha256 e db) = Some (granted ?s request token x)"
    using find_claim_table [OF pk] find_row_member [OF pk x2(1)] x(1) req(1,4) by simp_all
  show ?thesis
  proof (cases "x = r")
    case True
    then show ?thesis using f(2) r(2) by (simp add: handed_out_def claimed_row_def)
  next
    case False
    then have "claim_key x \<noteq> claim_key r" using primary_key_eq [OF pk x2(1) r(1)] by (auto simp: claim_key_due)
    with x(3) x2(2) have "ahead_of waiting r x" by (auto simp: ahead_of_def waiting_def claim_eligible_def state_defs)
    moreover have "\<not> ahead_of waiting r (granted ?s request token x)"
      using wait.written_rows_behind(1) [OF assms(6) req(2)] .
    ultimately show ?thesis using f by (intro disjI2 exI [of _ "{c_id x}"]) (auto simp: ids_where_def)
  qed
qed

interpretation wait: served_line waiting True handed_out 1
  by unfold_locales (rule waiting_serving)

lemma handouts_append: "handouts sha256 i (es @ es') db = handouts sha256 i es db + handouts sha256 i es' (run_history sha256 es db)"
  by (induction es arbitrary: db) simp_all

text \<open>
  C13. No starvation. Take a job that is due (pending, or running under an expired lease
  with budget left) with \<open>n\<close> jobs of its queue ahead in the order of due time, creation time
  and id. In any history in which the job is not canceled and nobody enqueues a backdated
  job into the queue, whatever else workers, operators, failures and crashes do (retries,
  redrives, expiring leases, new jobs), more than \<open>n\<close> healthy claims of the queue hand the
  job out.
\<close>

theorem no_starvation:
  assumes "sha256_size sha256" "list_all event_ok events" "db_ok db" "find_row i db = Some r" "waiting r"
    "list_all (no_overtaking True r) events" "jobs_ahead waiting r db < length (filter (serves r) events)"
  shows "0 < handouts sha256 i events db"
proof -
  obtain pre e post r' where h: "events = pre @ e # post" "find_row i (run_history sha256 pre db) = Some r"
    "find_row i (run_history sha256 (pre @ [e]) db) = Some r'" "handed_out r r'"
    using wait.served_at_last [OF assms(1-6)] assms(7) by auto
  then show ?thesis by (simp add: handouts_append spent_def handed_out_def run_history_append)
qed

theorem no_starvation_witness:
  "0 < handouts sample_sha256 (c_id sample_second) [rival_claim, rival_claim] [sample_pending, sample_second]"
proof -
  have q: "Claim_Queue sample_claim = c_queue sample_second"
    by (simp add: sample_claim_def sample_second_def sample_pending_def sample_running_def)
  have e: "event_ok rival_claim" "no_overtaking True sample_second rival_claim"
    by (simp_all add: rival_claim_def sample_event_def event_ok_def no_overtaking_def overdue_def
        due_at_def sample_second_def sample_pending_def sample_running_def sample_clock_def state_defs)
  have "serves sample_second rival_claim"
    by (simp add: rival_claim_def sample_event_def serves_def drawn_token_def q)
  note e = e this
  have "c_id sample_pending \<noteq> c_id sample_second"
    using db_ok_D(1) [OF sample_pair_ok] by (simp add: primary_key_def)
  then have "find_row (c_id sample_second) [sample_pending, sample_second] = Some sample_second"
    by (simp add: find_row_def)
  moreover have "jobs_ahead waiting sample_second [sample_pending, sample_second] \<le> 1"
    by (simp add: jobs_ahead_def ahead_of_def)
  moreover have "waiting sample_second"
    by (simp add: waiting_def sample_second_def sample_pending_def state_defs)
  ultimately show ?thesis
    using no_starvation [OF sample_sha256_size _ sample_pair_ok, of "[rival_claim, rival_claim]" _ sample_second] e
    by simp
qed


section \<open>Jobs to bury\<close>

text \<open>A job that was handed out for the last time and is not acknowledged.\<close>

definition last_attempt :: "row \<Rightarrow> bool" where
  "last_attempt r \<longleftrightarrow> c_state r = StateRunning \<and> c_max_attempts r \<le> c_attempts r"

definition laid_to_rest :: "row \<Rightarrow> row \<Rightarrow> bool" where
  "laid_to_rest r r' \<longleftrightarrow> c_state r' = StateDead \<and> c_lease_token r' = None \<and>
     c_last_error r' = ''lease expired after final attempt''"

interpretation bury: line last_attempt False laid_to_rest
  by unfold_locales
    (auto simp: last_attempt_def laid_to_rest_def exhausted_row_def claim_eligible_def state_defs)

lemma exhausted_match_iff:
  assumes "row_ok x"
  shows "exhausted_match clk queue x \<longleftrightarrow> c_queue x = queue \<and> last_attempt x \<and> until_key x \<le> clk 0 (c_id x)"
  using row_ok_running(3) [OF assms]
  by (auto simp: exhausted_match_def last_attempt_def expired_def until_key_def state_defs split: option.splits)

lemma last_attempt_key: "last_attempt r \<Longrightarrow> claim_key r = reap_key r \<and> due_at r = until_key r"
  by (simp add: last_attempt_def claim_key_def reap_key_until due_at_def state_defs)

lemma burial_serving:
  assumes "serves r e" "event_ok e" "db_ok db" "find_row i db = Some r" "last_attempt r" "overdue (s_clock (ev_script e)) r"
  shows "(\<exists>r'. find_row i (run_event sha256 e db) = Some r' \<and> laid_to_rest r r') \<or>
    (\<exists>K \<subseteq> ids_where (ahead_of last_attempt r) db.
       100 \<le> card K \<and> K \<inter> ids_where (ahead_of last_attempt r) (run_event sha256 e db) = {})"
proof -
  let ?s = "ev_script e"
  let ?dead = "reaped ?s (c_queue r) db" and ?doomed = "doomed ?s (c_queue r) db"
  obtain request token where req: "Claim_Queue request = c_queue r" "c_id r \<notin> set (s_locked ?s)"
    "run_event sha256 e db = claim_table ?s request token db"
    using serves_run [OF assms(1-3)] .
  have pk: "primary_key db" using assms(3) by (rule db_ok_D)
  have r: "r \<in> set db" "c_id r = i" "row_ok r" using find_row_Some find_row_ok assms(3,4) by blast+
  have "exhausted_match (s_clock ?s) (c_queue r) r"
    using exhausted_match_iff [OF r(3)] assms(5,6) last_attempt_key [OF assms(5)] by (simp add: overdue_def less_imp_le)
  then have doomed: "r \<in> set ?doomed" using r(1) req(2) by (simp add: doomed_exhausted)
  have after: "find_row (c_id x) db = Some x \<and> find_row (c_id x) (run_event sha256 e db) = Some (exhausted_row (s_clock ?s) x)"
    if "x \<in> set ?dead" for x
    using find_row_member [OF pk reaped_D(1) [OF that]] find_claim_table [OF pk] that req(1,3) by simp
  show ?thesis
  proof (cases "r \<in> set ?dead")
    case True
    with after [OF True] r(2) show ?thesis by (simp add: laid_to_rest_def exhausted_row_def state_defs)
  next
    case False
    have ahead: "ahead_of last_attempt r x" if x: "x \<in> set ?dead" for x
    proof -
      have "last_attempt x" "c_queue x = c_queue r"
        using exhausted_match_iff [OF db_ok_D(3) [OF assms(3) reaped_D(1) [OF x]]] reaped_D(2) [OF x] by blast+
      moreover have "claim_key x \<le> claim_key r"
        using reaped_least [OF x doomed False] last_attempt_key assms(5) calculation(1) by simp
      moreover have "claim_key x \<noteq> claim_key r"
        using primary_key_eq [OF pk reaped_D(1) [OF x] r(1)] x False by (auto simp: claim_key_due)
      ultimately show ?thesis by (simp add: ahead_of_def)
    qed
    have "100 \<le> card (c_id ` set ?dead)" using reaped_full [OF pk doomed False] .
    moreover have "c_id ` set ?dead \<subseteq> ids_where (ahead_of last_attempt r) db"
      using after ahead by (auto simp: ids_where_def)
    moreover have "c_id ` set ?dead \<inter> ids_where (ahead_of last_attempt r) (run_event sha256 e db) = {}"
      using after bury.written_rows_behind(2) [OF assms(6), of 0] by (auto simp: ids_where_def)
    ultimately show ?thesis by blast
  qed
qed

interpretation bury: served_line last_attempt False laid_to_rest 100
  by unfold_locales (rule burial_serving)

text \<open>
  C14. Crashes leave no running job behind. Take a job whose last attempt was never
  acknowledged and whose lease has ended, with \<open>n\<close> such jobs of its queue ahead of it by lease
  end, creation time and id. In any history in which the job is neither canceled nor
  redriven, more than \<open>n / 100\<close> healthy claims of the queue bury it: it ends up dead, without a
  lease, with the error that says why.
\<close>

theorem expired_attempts_buried:
  assumes "sha256_size sha256" "list_all event_ok events" "db_ok db" "find_row i db = Some r" "last_attempt r"
    "list_all (no_overtaking False r) events" "list_all (\<lambda>e. ev_call e \<noteq> Redrive_call i) events"
    "jobs_ahead last_attempt r db < 100 * length (filter (serves r) events)"
  shows "\<exists>r'. find_row i (run_history sha256 events db) = Some r' \<and> c_state r' = StateDead \<and>
    c_lease_token r' = None \<and> c_last_error r' = ''lease expired after final attempt''"
proof -
  obtain pre e post r' where h: "events = pre @ e # post" "find_row i (run_history sha256 (pre @ [e]) db) = Some r'"
    "laid_to_rest r r'"
    using bury.served_at_last [OF assms(1-6,8)] by blast
  let ?db1 = "run_history sha256 (pre @ [e]) db"
  have "db_ok ?db1" using run_history_row [OF assms(1) _ assms(3,4), of "pre @ [e]" "\<lambda>_. True"] assms(2) h(1) by simp
  moreover have "x = r'" if "f \<in> set post" "y = r'" "c_id y = i" "transition (event_brings f) y x" for f x y
  proof -
    have "ev_call f \<noteq> Redrive_call i" using that(1) assms(7) by (simp add: h(1) list_all_iff)
    then have "snd (event_brings f) \<noteq> Some i" by (auto simp: event_brings_def split: call.splits)
    with that h(3) transition_dead show ?thesis by (simp add: laid_to_rest_def)
  qed
  ultimately have "find_row i (run_history sha256 post ?db1) = Some r'"
    using run_history_row [OF assms(1) _ _ h(2), of post "\<lambda>x. x = r'"] assms(2) h(1) by auto
  with h(1,3) show ?thesis by (simp add: laid_to_rest_def run_history_append)
qed


theorem expired_attempts_buried_witness:
  "\<exists>r'. find_row sample_id (run_history sample_sha256 [sample_event, rival_claim] [sample_exhausted]) = Some r' \<and>
     c_state r' = StateDead"
proof -
  let ?events = "[sample_event, rival_claim]"
  note sample = sample_exhausted_def sample_running_def
  have ok: "list_all event_ok ?events" by (simp add: rival_claim_def event_ok_def) (simp add: sample_event_def)
  have order: "list_all (no_overtaking False sample_exhausted) ?events"
    by (simp add: no_overtaking_def rival_claim_def sample_event_def overdue_def due_at_def until_key_def sample
        sample_clock_def state_defs)
  have redrive: "list_all (\<lambda>e. ev_call e \<noteq> Redrive_call sample_id) ?events"
    by (simp add: rival_claim_def sample_event_def)
  have find: "find_row sample_id [sample_exhausted] = Some sample_exhausted"
    by (simp add: find_row_def sample_exhausted_def)
  have last: "last_attempt sample_exhausted" by (simp add: last_attempt_def sample state_defs)
  have "Claim_Queue sample_claim = c_queue sample_exhausted" by (simp add: sample_claim_def sample)
  then have serve: "serves sample_exhausted rival_claim"
    by (simp add: rival_claim_def sample_event_def serves_def drawn_token_def)
  have "jobs_ahead last_attempt sample_exhausted [sample_exhausted] < 100 * length (filter (serves sample_exhausted) ?events)"
    using serve by (simp add: jobs_ahead_def ahead_of_def)
  from expired_attempts_buried [OF sample_sha256_size ok sample_exhausted_ok find last order redrive this]
  show ?thesis by blast
qed

end
