(* ===== verification/Goroutines.thy ===== *)
theory Goroutines
  imports Worker
begin

text \<open>
  The two goroutines of \<^verbatim>\<open>runAttempt\<close> as a step relation: the caller that runs the
  handler, closes the stop channel, cancels the attempt context and joins, and the heartbeat
  goroutine with its \<^verbatim>\<open>select\<close> loop, its own cancellation and its send on the buffered
  channel. Every interleaving is a path. The theory shows that each of them ends in a result
  of the function \<^const>\<open>runAttempt\<close> for some value of its schedule argument, that the join
  neither deadlocks nor leaves a goroutine behind, and what a handler that ends its goroutine
  with \<^verbatim>\<open>runtime.Goexit\<close> does.
\<close>

section \<open>Shared state and steps\<close>

datatype main_pc =
    InHandler
  | HandlerDone error
  | StopClosed error
  | AttemptCanceled error
  | Joined error error
  | Exited

datatype beat_pc = Selecting | LoopReturned error | Sending error | Finished

text \<open>
  \<open>g_stop\<close>: the channel \<^verbatim>\<open>stopHeartbeat\<close> is closed; \<open>g_result\<close>: the buffer of
  \<^verbatim>\<open>heartbeatResult\<close>; \<open>g_ctx\<close>: \<^verbatim>\<open>ctx.Err()\<close> of the parent; \<open>g_err\<close> and \<open>g_cause\<close>:
  \<^verbatim>\<open>attemptContext.Err()\<close> and \<^verbatim>\<open>context.Cause(attemptContext)\<close>.
\<close>

record 'w goroutines =
  g_world :: 'w
  g_main :: main_pc
  g_beat :: beat_pc
  g_stop :: bool
  g_result :: "error option"
  g_ctx :: error
  g_err :: error
  g_cause :: error

definition g_start :: "'w \<Rightarrow> 'w goroutines" where
  "g_start w = \<lparr>g_world = w, g_main = InHandler, g_beat = Selecting, g_stop = False, g_result = None,
     g_ctx = None, g_err = None, g_cause = None\<rparr>"

text \<open>Canceling a context: only the first cancellation counts.\<close>

definition cancel_context :: "go_error \<Rightarrow> go_error \<Rightarrow> 'w goroutines \<Rightarrow> 'w goroutines" where
  "cancel_context err cause s =
     (if g_err s = None then s\<lparr>g_err := Some err, g_cause := Some cause\<rparr> else s)"

text \<open>
  Who moves: the caller or the heartbeat goroutine (\<open>Own\<close>), the ticker, the parent context.
\<close>

datatype mover = Own | Ticker | Parent

inductive gstep :: "'w Worker \<Rightarrow> 'w Handler \<Rightarrow> Job \<Rightarrow> mover \<Rightarrow> 'w goroutines \<Rightarrow> 'w goroutines \<Rightarrow> bool"
  for worker handler job where
  handler_returns: "g_main s = InHandler \<Longrightarrow> handler (g_world s) job = (w, outcome) \<Longrightarrow>
    gstep worker handler job Own s (s\<lparr>g_world := w, g_main := HandlerDone (callHandler outcome)\<rparr>)"
| handler_exits: "g_main s = InHandler \<Longrightarrow> handler (g_world s) job = (w, outcome) \<Longrightarrow>
    gstep worker handler job Own s (s\<lparr>g_world := w, g_main := Exited\<rparr>)"
| close_stop: "g_main s = HandlerDone e \<Longrightarrow>
    gstep worker handler job Own s (s\<lparr>g_main := StopClosed e, g_stop := True\<rparr>)"
| cancel_finished: "g_main s = StopClosed e \<Longrightarrow>
    gstep worker handler job Own s ((cancel_context (Sentinel context_Canceled) (Sentinel errHandlerFinished) s)
      \<lparr>g_main := AttemptCanceled e\<rparr>)"
| join: "g_main s = AttemptCanceled e \<Longrightarrow> g_result s = Some hb \<Longrightarrow>
    gstep worker handler job Own s (s\<lparr>g_main := Joined e hb, g_result := None\<rparr>)"
| select_stop: "g_beat s = Selecting \<Longrightarrow> g_stop s \<Longrightarrow>
    gstep worker handler job Own s (s\<lparr>g_beat := LoopReturned None\<rparr>)"
| select_done: "g_beat s = Selecting \<Longrightarrow> g_err s = Some e \<Longrightarrow>
    gstep worker handler job Own s (s\<lparr>g_beat := LoopReturned (Some e)\<rparr>)"
| select_tick: "g_beat s = Selecting \<Longrightarrow>
    st_Heartbeat (Worker_Ops worker) (g_world s) (Job_Lease job) (Worker_LeaseDuration worker) = (w, r) \<Longrightarrow>
    gstep worker handler job Ticker s
      (s\<lparr>g_world := w, g_beat := (case r of None \<Rightarrow> Selecting | Some e \<Rightarrow> LoopReturned (Some e))\<rparr>)"
| beat_cancels: "g_beat s = LoopReturned (Some e) \<Longrightarrow>
    gstep worker handler job Own s ((cancel_context (Sentinel context_Canceled) e s)\<lparr>g_beat := Sending (Some e)\<rparr>)"
| beat_quits: "g_beat s = LoopReturned None \<Longrightarrow>
    gstep worker handler job Own s (s\<lparr>g_beat := Sending None\<rparr>)"
| beat_sends: "g_beat s = Sending r \<Longrightarrow> g_result s = None \<Longrightarrow>
    gstep worker handler job Own s (s\<lparr>g_beat := Finished, g_result := Some r\<rparr>)"
| parent_ends: "g_ctx s = None \<Longrightarrow> gstep worker handler job Parent s (s\<lparr>g_ctx := Some e\<rparr>)"
| parent_cancels: "g_ctx s = Some e \<Longrightarrow> gstep worker handler job Parent s (cancel_context e cause s)"

definition gmove :: "'w Worker \<Rightarrow> 'w Handler \<Rightarrow> Job \<Rightarrow> 'w goroutines \<Rightarrow> 'w goroutines \<Rightarrow> bool" where
  "gmove worker handler job s s' \<longleftrightarrow> (\<exists>m. gstep worker handler job m s s')"

abbreviation gmoves :: "'w Worker \<Rightarrow> 'w Handler \<Rightarrow> Job \<Rightarrow> 'w goroutines \<Rightarrow> 'w goroutines \<Rightarrow> bool" where
  "gmoves worker handler job \<equiv> (gmove worker handler job)\<^sup>*\<^sup>*"

lemma cancel_context_simps [simp]:
  "g_world (cancel_context err cause s) = g_world s" "g_main (cancel_context err cause s) = g_main s"
  "g_beat (cancel_context err cause s) = g_beat s" "g_stop (cancel_context err cause s) = g_stop s"
  "g_result (cancel_context err cause s) = g_result s" "g_ctx (cancel_context err cause s) = g_ctx s"
  "g_err (cancel_context err cause s) = (if g_err s = None then Some err else g_err s)"
  "g_cause (cancel_context err cause s) = (if g_err s = None then Some cause else g_cause s)"
  by (simp_all add: cancel_context_def)

section \<open>What the steps have done so far\<close>

text \<open>The heartbeat loop as the function \<^const>\<open>heartbeat\<close> sees it; \<open>hb\<close> is the value sent.\<close>

fun beat_result :: "beat_pc \<Rightarrow> error \<Rightarrow> heartbeat_result" where
  "beat_result Selecting hb = Beating"
| "beat_result (LoopReturned r) hb = HeartbeatReturned r"
| "beat_result (Sending r) hb = HeartbeatReturned r"
| "beat_result Finished hb = HeartbeatReturned hb"

text \<open>The value sent, wherever it is now.\<close>

fun handler_result :: "main_pc \<Rightarrow> error option" where
  "handler_result InHandler = None"
| "handler_result (HandlerDone e) = Some e"
| "handler_result (StopClosed e) = Some e"
| "handler_result (AttemptCanceled e) = Some e"
| "handler_result (Joined e hb) = Some e"
| "handler_result Exited = None"

definition sent_value :: "'w goroutines \<Rightarrow> error" where
  "sent_value s = (case g_main s of Joined e hb \<Rightarrow> hb | _ \<Rightarrow> (case g_result s of Some hb \<Rightarrow> hb | None \<Rightarrow> None))"

abbreviation loop_result :: "'w goroutines \<Rightarrow> heartbeat_result" where
  "loop_result s \<equiv> beat_result (g_beat s) (sent_value s)"

definition beats :: "'w Worker \<Rightarrow> Job \<Rightarrow> select list \<Rightarrow> 'w \<Rightarrow> 'w \<times> heartbeat_result" where
  "beats worker job = heartbeat (Worker_Ops worker) (Worker_LeaseDuration worker) (Job_Lease job)"

lemma heartbeat_append:
  "heartbeat st d lease (cs @ ds) w =
     (case heartbeat st d lease cs w of
        (w', Beating) \<Rightarrow> heartbeat st d lease ds w' | (w', HeartbeatReturned r) \<Rightarrow> (w', HeartbeatReturned r))"
  by (induction st d lease cs w rule: heartbeat.induct) (auto split: prod.splits option.splits)

lemma beats_extend:
  assumes "beats worker job cs w = (w1, Beating)"
  shows "beats worker job (cs @ ds) w = beats worker job ds w1"
  using assms by (simp add: beats_def heartbeat_append)

text \<open>
  What select choices before and after the handler's effect lead to: the handler's result,
  the world and the state of the loop.
\<close>

inductive handled :: "'w Worker \<Rightarrow> 'w Handler \<Rightarrow> Job \<Rightarrow> 'w \<Rightarrow> error \<Rightarrow> 'w \<Rightarrow> heartbeat_result \<Rightarrow> bool"
  for worker handler job w where
  stopped_before: "beats worker job during w = (w1, HeartbeatReturned r) \<Longrightarrow> handler w1 job = (w2, outcome) \<Longrightarrow>
    handled worker handler job w (callHandler outcome) w2 (HeartbeatReturned r)"
| beating: "beats worker job during w = (w1, Beating) \<Longrightarrow> handler w1 job = (w2, outcome) \<Longrightarrow>
    beats worker job after w2 = (w3, h) \<Longrightarrow> handled worker handler job w (callHandler outcome) w3 h"

definition traced :: "'w Worker \<Rightarrow> 'w Handler \<Rightarrow> Job \<Rightarrow> 'w \<Rightarrow> 'w goroutines \<Rightarrow> bool" where
  "traced worker handler job w s \<longleftrightarrow>
     (case handler_result (g_main s) of
        None \<Rightarrow> g_main s = InHandler \<longrightarrow> (\<exists>cs. beats worker job cs w = (g_world s, loop_result s))
      | Some e \<Rightarrow> handled worker handler job w e (g_world s) (loop_result s))"

text \<open>The channel carries exactly the value of the goroutine, once.\<close>

definition channel_inv :: "'w goroutines \<Rightarrow> bool" where
  "channel_inv s \<longleftrightarrow>
     (case g_main s of Joined e hb \<Rightarrow> g_beat s = Finished \<and> g_result s = None
      | _ \<Rightarrow> (g_beat s = Finished) = (g_result s \<noteq> None)) \<and>
     (case g_main s of StopClosed e \<Rightarrow> g_stop s | AttemptCanceled e \<Rightarrow> g_stop s \<and> g_err s \<noteq> None
      | Joined e hb \<Rightarrow> g_stop s \<and> g_err s \<noteq> None | _ \<Rightarrow> \<not> g_stop s)"

text \<open>Who may have set the cause while the parent lives.\<close>

definition cause_inv :: "'w goroutines \<Rightarrow> bool" where
  "cause_inv s \<longleftrightarrow> (g_ctx s = None \<longrightarrow>
     (g_err s = None \<and> g_cause s = None \<or> g_cause s = Some (Sentinel errHandlerFinished) \<or>
      (\<exists>e. g_cause s = Some e \<and> loop_result s = HeartbeatReturned (Some e))))"

section \<open>The invariants hold on every path\<close>

lemma channel_inv_step: "gstep worker handler job m s s' \<Longrightarrow> channel_inv s \<Longrightarrow> channel_inv s'"
  by (induction rule: gstep.induct) (auto simp: channel_inv_def split: main_pc.splits option.splits)

lemma loop_result_selecting [simp]: "loop_result s = Beating \<longleftrightarrow> g_beat s = Selecting"
  by (cases "g_beat s") simp_all

inductive_cases handled_BeatingE: "handled worker handler job w e v Beating"

lemma traced_beat:
  assumes "traced worker handler job w s" "g_beat s = Selecting" "g_main s' = g_main s"
    "beats worker job [c] (g_world s) = (g_world s', loop_result s')"
  shows "traced worker handler job w s'"
proof -
  have more: "beats worker job (cs @ [c]) v = (g_world s', loop_result s')"
    if "beats worker job cs v = (g_world s, Beating)" for cs v
    using that assms(4) beats_extend by metis
  show ?thesis
  proof (cases "handler_result (g_main s)")
    case None
    with assms(1-3) more show ?thesis by (auto simp: traced_def)
  next
    case (Some e)
    with assms(1,2) have "handled worker handler job w e (g_world s) Beating" by (simp add: traced_def)
    then have "handled worker handler job w e (g_world s') (loop_result s')"
      by (elim handled_BeatingE) (auto intro: handled.beating more)
    with Some assms(3) show ?thesis by (simp add: traced_def)
  qed
qed

lemma traced_same:
  assumes "traced worker handler job w s" "handler_result (g_main s') = handler_result (g_main s)"
    "g_main s' = InHandler \<longrightarrow> g_main s = InHandler" "g_world s' = g_world s" "loop_result s' = loop_result s"
  shows "traced worker handler job w s'"
  using assms(1,3) unfolding traced_def assms(2,4,5) by (auto split: option.splits)

lemma beats_single:
  "beats worker job [SelStop] w = (w, HeartbeatReturned None)"
  "beats worker job [SelDone e] w = (w, HeartbeatReturned (Some e))"
  "beats worker job [SelTick] w =
     (case st_Heartbeat (Worker_Ops worker) w (Job_Lease job) (Worker_LeaseDuration worker) of
        (w', r) \<Rightarrow> (w', case r of None \<Rightarrow> Beating | Some e \<Rightarrow> HeartbeatReturned (Some e)))"
  by (simp_all add: beats_def split: prod.splits option.splits)

lemma traced_step:
  assumes "gstep worker handler job m s s'" "channel_inv s" "traced worker handler job w s"
  shows "traced worker handler job w s'"
  using assms
proof (cases rule: gstep.cases)
  case (handler_returns w2 outcome)
  from assms(3) handler_returns obtain during where d: "beats worker job during w = (g_world s, loop_result s)"
    by (auto simp: traced_def)
  have "handled worker handler job w (callHandler outcome) w2 (loop_result s)"
  proof (cases "loop_result s")
    case Beating
    then show ?thesis using d handler_returns(4) by (auto intro: handled.beating [of _ _ _ _ _ _ _ _ "[]"] simp: beats_def)
  next
    case (HeartbeatReturned r)
    then show ?thesis using d handler_returns(4) by (auto intro: handled.stopped_before)
  qed
  moreover have "loop_result s' = loop_result s" using handler_returns by (simp add: sent_value_def)
  ultimately show ?thesis using handler_returns by (simp add: traced_def)
next
  case (handler_exits w2 outcome)
  then show ?thesis by (simp add: traced_def)
next
  case (join e hb)
  then have "g_beat s = Finished" using assms(2) by (auto simp: channel_inv_def)
  with join show ?thesis by (intro traced_same [OF assms(3)]) (simp_all add: sent_value_def)
next
  case select_stop
  then show ?thesis by (intro traced_beat [OF assms(3), of _ SelStop]) (simp_all add: beats_single)
next
  case (select_done e)
  then show ?thesis by (intro traced_beat [OF assms(3), of _ "SelDone e"]) (simp_all add: beats_single)
next
  case (select_tick w2 r)
  then show ?thesis
    by (intro traced_beat [OF assms(3), of _ SelTick]) (simp_all add: beats_single split: option.splits)
next
  case (beat_sends r)
  then have "\<And>e hb. g_main s \<noteq> Joined e hb" using assms(2) by (auto simp: channel_inv_def)
  with beat_sends show ?thesis
    by (intro traced_same [OF assms(3)]) (simp_all add: sent_value_def split: main_pc.splits)
qed (intro traced_same [OF assms(3)], simp_all add: sent_value_def split: main_pc.split)+

lemma cause_inv_step:
  assumes "gstep worker handler job m s s'" "channel_inv s" "cause_inv s"
  shows "cause_inv s'"
  using assms
  by (cases rule: gstep.cases)
    (auto simp: cause_inv_def channel_inv_def sent_value_def split: main_pc.splits option.splits if_splits)

definition ginv :: "'w Worker \<Rightarrow> 'w Handler \<Rightarrow> Job \<Rightarrow> 'w \<Rightarrow> 'w goroutines \<Rightarrow> bool" where
  "ginv worker handler job w s \<longleftrightarrow> channel_inv s \<and> traced worker handler job w s \<and> cause_inv s"

lemma ginv_start: "ginv worker handler job w (g_start w)"
proof -
  have "beats worker job [] w = (w, Beating)" by (simp add: beats_def)
  then have "traced worker handler job w (g_start w)" by (auto simp: traced_def g_start_def)
  then show ?thesis by (simp add: ginv_def channel_inv_def cause_inv_def g_start_def)
qed

lemma ginv_moves: "gmoves worker handler job s s' \<Longrightarrow> ginv worker handler job w s \<Longrightarrow> ginv worker handler job w s'"
  by (induction rule: rtranclp_induct)
    (auto simp: gmove_def ginv_def intro: channel_inv_step traced_step cause_inv_step)

lemmas ginv_reached = ginv_moves [OF _ ginv_start]

section \<open>Every interleaving is a schedule of runAttempt\<close>

text \<open>After the join only the parent context still moves.\<close>

lemma joined_frozen:
  assumes "gmoves worker handler job s s'" "channel_inv s" "g_main s = Joined e hb"
  shows "g_main s' = Joined e hb \<and> g_world s' = g_world s \<and> g_cause s' = g_cause s \<and> channel_inv s'"
  using assms(1)
proof (induction rule: rtranclp_induct)
  case (step t u)
  then obtain m where m: "gstep worker handler job m t u" by (auto simp: gmove_def)
  have t: "g_beat t = Finished" "g_result t = None" "g_err t \<noteq> None" "g_main t = Joined e hb"
    using step(3) by (auto simp: channel_inv_def)
  from m t have "g_main u = g_main t \<and> g_world u = g_world t \<and> g_cause u = g_cause t"
    by (cases rule: gstep.cases) auto
  with step(3) channel_inv_step [OF m] show ?case by simp
qed (use assms(2,3) in simp)

lemma joined_coordinate:
  assumes "ginv worker handler job w s" "g_main s = Joined e hb"
  obtains during after where
    "\<And>b x. coordinate worker \<lparr>at_during = during, at_after = after, at_finished_first = b, at_ctx_err = x\<rparr> handler job w =
       (g_world s, e, hb)"
proof -
  have "g_beat s = Finished" "sent_value s = hb"
    using assms by (auto simp: ginv_def channel_inv_def sent_value_def)
  with assms have "handled worker handler job w e (g_world s) (HeartbeatReturned hb)"
    by (simp add: ginv_def traced_def)
  then show ?thesis
  proof cases
    case (stopped_before during w1 outcome)
    then show ?thesis by (intro that [of during "[]"]) (simp add: coordinate_def beats_def Let_def)
  next
    case (beating during w1 w2 outcome after)
    then have "beats worker job (after @ [SelStop]) w2 = (g_world s, HeartbeatReturned hb)"
      by (simp add: beats_def heartbeat_append)
    with beating show ?thesis by (intro that [of during after]) (simp add: coordinate_def beats_def Let_def)
  qed
qed

text \<open>
  C9. The concurrency of an attempt is the schedule argument of the model. Take any
  interleaving of the caller, the heartbeat goroutine, the ticker and the parent context up
  to the join, and let the code after the join read \<^verbatim>\<open>ctx.Err()\<close> in the state it is
  then in and \<^verbatim>\<open>context.Cause(attemptContext)\<close> in any later one. The attempt ends with
  exactly the world and the error that \<^const>\<open>runAttempt\<close> computes for some schedule with
  that value of \<^verbatim>\<open>ctx.Err()\<close>; so what is proved of \<^const>\<open>runAttempt\<close> for every schedule
  holds for every interleaving.
\<close>

theorem interleavings_refine_runAttempt:
  assumes "gmoves worker handler job (g_start w) s1" "g_main s1 = Joined handlerErr heartbeatErr"
    "gmoves worker handler job s1 s2"
  shows "\<exists>at. at_ctx_err at = g_ctx s1 \<and>
    runAttempt worker at handler job w =
      conclude worker job (g_ctx s1) (g_cause s2) handlerErr heartbeatErr (g_world s2)"
proof -
  have inv: "ginv worker handler job w s1" using ginv_reached [OF assms(1)] .
  have late: "g_world s2 = g_world s1" "g_cause s2 = g_cause s1"
    using joined_frozen [OF assms(3) _ assms(2)] inv by (auto simp: ginv_def)
  obtain during after where co:
    "\<And>b x. coordinate worker \<lparr>at_during = during, at_after = after, at_finished_first = b, at_ctx_err = x\<rparr> handler job w =
       (g_world s1, handlerErr, heartbeatErr)"
    using joined_coordinate [OF inv assms(2)] by metis
  let ?at = "\<lparr>at_during = during, at_after = after,
    at_finished_first = (g_cause s1 = Some (Sentinel errHandlerFinished)), at_ctx_err = g_ctx s1\<rparr>"
  have "g_ctx s1 = None \<Longrightarrow> attempt_cause ?at heartbeatErr = g_cause s1"
    using inv assms(2) by (auto simp: ginv_def cause_inv_def channel_inv_def sent_value_def attempt_cause_def)
  then have "runAttempt worker ?at handler job w =
      conclude worker job (g_ctx s1) (g_cause s1) handlerErr heartbeatErr (g_world s1)"
    by (cases "g_ctx s1") (simp_all add: runAttempt_def co conclude_def Let_def)
  then show ?thesis using late by (intro exI [of _ ?at]) simp
qed

section \<open>The join\<close>

text \<open>How many steps of their own the two goroutines have left.\<close>

fun main_left :: "main_pc \<Rightarrow> nat" where
  "main_left InHandler = 4"
| "main_left (HandlerDone e) = 3"
| "main_left (StopClosed e) = 2"
| "main_left (AttemptCanceled e) = 1"
| "main_left (Joined e hb) = 0"
| "main_left Exited = 0"

fun beat_left :: "beat_pc \<Rightarrow> nat" where
  "beat_left Selecting = 3"
| "beat_left (LoopReturned r) = 2"
| "beat_left (Sending r) = 1"
| "beat_left Finished = 0"

definition steps_left :: "'w goroutines \<Rightarrow> nat" where
  "steps_left s = main_left (g_main s) + beat_left (g_beat s)"

lemma gstep_left:
  "gstep worker handler job m s s' \<Longrightarrow> steps_left s' \<le> steps_left s \<and> (m = Own \<longrightarrow> steps_left s' < steps_left s)"
  by (induction rule: gstep.induct) (auto simp: steps_left_def split: option.splits)

lemma left_bounds: "beat_left b \<le> 3" "handler_result p = Some e \<Longrightarrow> main_left p \<le> 3"
  by (cases b; simp) (cases p; simp)

text \<open>A goroutine waits only for the other one.\<close>

lemma own_step_enabled:
  assumes "channel_inv s" "handler_result (g_main s) = Some e" "\<And>e hb. g_main s \<noteq> Joined e hb"
  shows "\<exists>s'. gstep worker handler job Own s s'"
proof (cases "g_main s")
  case (HandlerDone e)
  then show ?thesis by (blast intro: gstep.close_stop)
next
  case (StopClosed e)
  then show ?thesis by (blast intro: gstep.cancel_finished)
next
  case (AttemptCanceled e)
  with assms(1) have stop: "g_stop s" and buf: "(g_beat s = Finished) = (g_result s \<noteq> None)"
    by (auto simp: channel_inv_def)
  show ?thesis
  proof (cases "g_beat s")
    case Selecting
    with stop show ?thesis by (blast intro: gstep.select_stop)
  next
    case (LoopReturned r)
    then show ?thesis by (cases r) (blast intro: gstep.beat_quits gstep.beat_cancels)+
  next
    case (Sending r)
    then have "g_result s = None" using buf by simp
    with Sending show ?thesis by (blast intro: gstep.beat_sends)
  next
    case Finished
    with buf AttemptCanceled show ?thesis by (blast intro: gstep.join)
  qed
qed (use assms in auto)

text \<open>
  C38. The join of an attempt. Once the handler has returned (or panicked), under every
  interleaving: no state before the join is a deadlock, since the caller or the heartbeat
  goroutine can move; each such move uses up one of at most six, and neither ticks nor the
  parent context give one back; so when the select takes a ready case of its own the join is
  reached. At the join the heartbeat goroutine has finished: none is left behind.
\<close>

theorem join_reached:
  assumes "gmoves worker handler job (g_start w) s" "handler_result (g_main s) = Some e"
  shows "(case g_main s of Joined e hb \<Rightarrow> g_beat s = Finished
      | _ \<Rightarrow> \<exists>s'. gstep worker handler job Own s s') \<and>
    steps_left s \<le> 6 \<and>
    (\<forall>m s'. gstep worker handler job m s s' \<longrightarrow>
      steps_left s' \<le> steps_left s \<and> (m = Own \<longrightarrow> steps_left s' < steps_left s))"
proof -
  have inv: "channel_inv s" using ginv_reached [OF assms(1)] by (simp add: ginv_def)
  have "case g_main s of Joined e hb \<Rightarrow> g_beat s = Finished | _ \<Rightarrow> \<exists>s'. gstep worker handler job Own s s'"
    using own_step_enabled [OF inv assms(2)] inv by (auto simp: channel_inv_def split: main_pc.splits)
  moreover have "steps_left s \<le> 6"
    using left_bounds(1) [of "g_beat s"] left_bounds(2) [OF assms(2)] by (simp add: steps_left_def)
  ultimately show ?thesis using gstep_left by blast
qed

section \<open>A handler that ends its goroutine\<close>

lemma exited_moves:
  assumes "gmoves worker handler job s s'" "g_main s = Exited"
  shows "g_main s' = Exited"
  using assms by (induction rule: rtranclp_induct) (auto simp: gmove_def elim: gstep.cases)

definition quiet_inv :: "'w goroutines \<Rightarrow> bool" where
  "quiet_inv s \<longleftrightarrow> (g_ctx s = None \<and> g_beat s = Selecting \<and> \<not> g_stop s \<longrightarrow> g_err s = None)"

lemma quiet_inv_moves:
  assumes "gmoves worker handler job (g_start w) s"
  shows "quiet_inv s \<and> channel_inv s"
  using assms
proof (induction rule: rtranclp_induct)
  case (step t u)
  then obtain m where m: "gstep worker handler job m t u" by (auto simp: gmove_def)
  then have "quiet_inv u"
    using step(3) by (cases rule: gstep.cases) (auto simp: quiet_inv_def channel_inv_def split: option.splits)
  with step(3) channel_inv_step [OF m] show ?case by simp
qed (simp add: quiet_inv_def channel_inv_def g_start_def)

text \<open>
  \<^verbatim>\<open>runtime.Goexit\<close> in a handler is no panic: the deferred function of \<^verbatim>\<open>callHandler\<close>
  runs, but \<^verbatim>\<open>runAttempt\<close> does not go on, so the stop channel stays open and nobody
  cancels. While the parent context lives and heartbeats succeed, the heartbeat goroutine
  has no move but the next heartbeat.
\<close>

theorem goexit_leaves_heartbeat:
  assumes "gmoves worker handler job (g_start w) s" "g_main s = Exited" "g_ctx s = None" "g_beat s = Selecting"
  shows "\<not> g_stop s \<and> \<not> (\<exists>s'. gstep worker handler job Own s s')"
proof -
  have inv: "quiet_inv s" "channel_inv s" using quiet_inv_moves [OF assms(1)] by auto
  then have s: "\<not> g_stop s" "g_err s = None" using assms(2-4) by (auto simp: channel_inv_def quiet_inv_def)
  then have "\<not> gstep worker handler job Own s s'" for s'
    using assms(2,4) by (auto elim: gstep.cases)
  with s show ?thesis by blast
qed

lemma gmoves_step: "gstep worker handler job m s t \<Longrightarrow> gmoves worker handler job t u \<Longrightarrow> gmoves worker handler job s u"
  by (rule converse_rtranclp_into_rtranclp) (auto simp: gmove_def)

theorem goexit_leaves_heartbeat_witness:
  "\<exists>s. gmoves (sample_worker None (HandlerReturned None)) (\<lambda>w job. (w, HandlerReturned None))
       (job_of_row sample_running) (g_start ()) s \<and> g_main s = Exited \<and> \<not> g_stop s"
proof -
  let ?w = "sample_worker None (HandlerReturned None)" and ?h = "\<lambda>w job. (w, HandlerReturned None)"
  let ?s = "(g_start ())\<lparr>g_world := (), g_main := Exited\<rparr>"
  have "gstep ?w ?h (job_of_row sample_running) Own (g_start ()) ?s"
    by (rule gstep.handler_exits) (simp_all add: g_start_def)
  then have m: "gmoves ?w ?h (job_of_row sample_running) (g_start ()) ?s"
    using gmoves_step rtranclp.rtrancl_refl by metis
  from goexit_leaves_heartbeat [OF m] m show ?thesis by (auto simp: g_start_def)
qed

section \<open>A concrete interleaving\<close>

text \<open>Without a tick: the handler returns, the channel is closed, the loop stops, the join.\<close>

definition joined_state :: "'w \<Rightarrow> error \<Rightarrow> 'w goroutines" where
  "joined_state w e = \<lparr>g_world = w, g_main = Joined e None, g_beat = Finished, g_stop = True, g_result = None,
     g_ctx = None, g_err = Some (Sentinel context_Canceled), g_cause = Some (Sentinel errHandlerFinished)\<rparr>"

lemma straight_path:
  assumes "handler w job = (w', outcome)"
  shows "gmoves worker handler job (g_start w) (joined_state w' (callHandler outcome))"
proof -
  note rules = gstep.handler_returns [of _ handler job w' outcome] gstep.close_stop gstep.cancel_finished
    gstep.select_stop gstep.beat_quits gstep.beat_sends gstep.join
  show ?thesis
    apply (rule gmoves_step, rule rules(1), simp add: g_start_def, simp add: g_start_def assms)
    apply (rule gmoves_step, rule rules(2), simp add: g_start_def)
    apply (rule gmoves_step, rule rules(3), simp add: g_start_def)
    apply (rule gmoves_step, rule rules(4), simp add: g_start_def, simp add: g_start_def)
    apply (rule gmoves_step, rule rules(5), simp add: g_start_def)
    apply (rule gmoves_step, rule rules(6), simp, simp add: g_start_def)
    apply (rule gmoves_step, rule rules(7), simp, simp)
    apply (simp add: g_start_def joined_state_def cancel_context_def)
    done
qed

theorem interleavings_refine_runAttempt_witness:
  "\<exists>at. at_ctx_err at = None \<and>
     runAttempt (sample_worker None HandlerPanicked) at (\<lambda>w job. (w, HandlerPanicked)) (job_of_row sample_running) () =
     conclude (sample_worker None HandlerPanicked) (job_of_row sample_running) None
       (Some (Sentinel errHandlerFinished)) (Some (Sentinel errHandlerPanicked)) None ()"
  using interleavings_refine_runAttempt [OF straight_path [of "\<lambda>w job. (w, HandlerPanicked)" "()" "job_of_row sample_running" "()"
        HandlerPanicked "sample_worker None HandlerPanicked", OF refl] _ rtranclp.rtrancl_refl]
  by (simp add: joined_state_def callHandler_def)

theorem join_reached_witness:
  "g_beat (joined_state () None) = Finished \<and> steps_left (joined_state () None) \<le> 6"
  using join_reached [OF straight_path [of "\<lambda>w job. (w, HandlerReturned None)" "()" "job_of_row sample_running" "()"
        "HandlerReturned None" "sample_worker None (HandlerReturned None)", OF refl], of None]
  by (simp add: joined_state_def callHandler_def)

end
