(* ===== verification/Answers.thy ===== *)
theory Answers
  imports Enqueue Operations Claiming
begin

text \<open>
  What the public functions hand to their callers, as a type contract: whatever the table
  holds and whatever the environment does, a nil error comes with a well-formed job, an error
  comes with the zero job, and the only exception is a commit of unknown outcome.
\<close>

section \<open>The contract of an answer\<close>

definition answered :: "('a \<Rightarrow> bool) \<Rightarrow> 'a \<Rightarrow> 'a \<times> error \<Rightarrow> bool" where
  "answered good zero answer \<longleftrightarrow>
     (case snd answer of
        None \<Rightarrow> good (fst answer)
      | Some e \<Rightarrow> fst answer = zero \<or> good (fst answer) \<and> errors_Is e ErrCommitOutcomeUnknown)"

text \<open>The stricter contract of a transaction's body and of a read: an error carries nothing.\<close>

definition answered_plainly :: "('a \<Rightarrow> bool) \<Rightarrow> 'a \<Rightarrow> 'a \<times> error \<Rightarrow> bool" where
  "answered_plainly good zero answer \<longleftrightarrow>
     (case snd answer of None \<Rightarrow> good (fst answer) | Some e \<Rightarrow> fst answer = zero)"

lemma answered_simps [simp]:
  "answered good zero (v, None) = good v" "answered good zero (zero, Some e)"
  "answered_plainly good zero (v, None) = good v" "answered_plainly good zero (v, Some e) = (v = zero)"
  by (simp_all add: answered_def answered_plainly_def)

lemma answered_plain: "answered_plainly good zero answer \<Longrightarrow> answered good zero answer"
  by (auto simp: answered_def answered_plainly_def split: option.splits)

text \<open>The transaction adds an error of its own, or an unknown outcome to a good value.\<close>

lemma transact_answered:
  assumes "answered_plainly good zero (snd (operation db))"
  shows "answered good zero (snd (transact ctx s zero operation db))"
  using assms
  by (auto simp: transact_def answered_def answered_plainly_def errors_Is_deferred_rollback
      split: option.splits prod.splits)

lemma scanJob_good: "scanJob row = Inr job \<Longrightarrow> stored_job_ok job"
proof (cases row)
  case (Inr raw)
  assume "scanJob row = Inr job"
  then obtain fp where "scanJobRow (Inr raw) None = Inr (fp, job)"
    using Inr by (auto simp: scanJob_def map_sum_def split: sum.splits prod.splits)
  then show ?thesis using scanJobRow_Inr by blast
qed simp

lemma scanJobWithFingerprint_good: "scanJobWithFingerprint row = Inr (fp, job) \<Longrightarrow> stored_job_ok job"
proof (cases row)
  case (Inr raw)
  assume "scanJobWithFingerprint row = Inr (fp, job)"
  then show ?thesis using Inr scanJobRow_Inr unfolding scanJobWithFingerprint_def by blast
qed simp

section \<open>Every public function keeps it\<close>

abbreviation job_answer :: "Job \<times> error \<Rightarrow> bool" where
  "job_answer \<equiv> answered stored_job_ok zero_Job"

lemma leaseMutation_answer: "job_answer (snd (leaseMutation s ctx lease statement db))"
  unfolding leaseMutation_def
  by (rule transact_answered) (auto simp: Let_def split: prod.splits sum.splits dest: scanJob_good)

lemma lease_answers:
  "job_answer (snd (Complete s repository ctx lease db))"
  "job_answer (snd (Fail s repository ctx lease failure db))"
  by (simp_all add: Complete_def Fail_def leaseMutation_answer split: option.splits)

lemma Claim_answer: "job_answer (snd (Claim s repository ctx request db))"
proof -
  let ?good = "\<lambda>v. if claimResult_found v then stored_job_ok (claimResult_job v) else v = zero_claimResult"
  have a: "answered ?good zero_claimResult (snd (transact ctx s zero_claimResult (claim_body s request token) db))" for token
    by (rule transact_answered)
      (auto simp: claim_body_def zero_claimResult_def Let_def split: prod.splits sum.splits dest: scanJob_good)
  show ?thesis
  proof (cases "usable repository ctx \<and> validateClaim request = None")
    case True
    show ?thesis
    proof (cases "newLeaseToken (s_entropy s)")
      case (Inr token)
      obtain db' v err where t: "transact ctx s zero_claimResult (claim_body s request token) db = (db', v, err)"
        using prod_cases3 by blast
      have "Claim s repository ctx request db = (case err of Some e \<Rightarrow> (db', claimResult_job v, Some e)
          | None \<Rightarrow> if \<not> claimResult_found v then (db', zero_Job, Some (Sentinel ErrNoJob)) else (db', claimResult_job v, None))"
        using True Inr newLeaseToken_ok [OF Inr] t by (simp add: Claim_def claimWithToken_def token_ok_def split: option.splits)
      then show ?thesis
        using a [of token] unfolding t by (auto simp: answered_def zero_claimResult_def split: option.splits if_splits)
    qed (use True in \<open>simp add: Claim_def\<close>)
  qed (auto simp: Claim_def split: option.splits)
qed

lemma operator_answers:
  "job_answer (snd (Cancel s repository ctx i db))" "job_answer (snd (Redrive s repository ctx i db))"
  "answered_plainly stored_job_ok zero_Job (Get s repository ctx i db)"
proof -
  show "job_answer (snd (Cancel s repository ctx i db))"
    unfolding Cancel_def
    by (cases "validateMutation repository ctx i")
      (auto intro!: transact_answered simp: Let_def split: prod.splits sum.splits dest: scanJob_good)
  show "job_answer (snd (Redrive s repository ctx i db))"
    unfolding Redrive_def
    by (cases "validateMutation repository ctx i")
      (auto intro!: transact_answered simp: Let_def split: prod.splits sum.splits dest: scanJob_good)
  show "answered_plainly stored_job_ok zero_Job (Get s repository ctx i db)"
    by (auto simp: Get_def split: option.splits sum.splits dest: scanJob_good)
qed

text \<open>Enqueuing also says whether the job is new; an error never does.\<close>

abbreviation enqueue_answer :: "(Job \<times> bool) \<times> error \<Rightarrow> bool" where
  "enqueue_answer \<equiv> answered (\<lambda>(job, created). stored_job_ok job) (zero_Job, False)"

lemma enqueuePrepared_answer:
  "answered_plainly (\<lambda>(job, created). stored_job_ok job) (zero_Job, False)
     (snd (enqueuePrepared sha256 s n request db))"
  by (auto simp: enqueuePrepared_def Let_def split: sum.splits prod.splits
      dest: scanJob_good scanJobWithFingerprint_good)

lemma enqueue_answers:
  "enqueue_answer (snd (Enqueue sha256 s repository ctx request db))"
  "enqueue_answer (snd (EnqueueTx sha256 s repository ctx tx request db))"
  using enqueuePrepared_answer answered_plain [OF enqueuePrepared_answer]
  by (auto simp: Enqueue_def EnqueueTx_def intro!: transact_answered split: option.splits prod.splits)

lemma scan_dead_good:
  "scan_dead rows jobs = Inr result \<Longrightarrow> list_all (\<lambda>j. stored_job_ok j \<and> Job_State j = StateDead) jobs \<Longrightarrow>
   list_all (\<lambda>j. stored_job_ok j \<and> Job_State j = StateDead) result"
  by (induction rows jobs rule: scan_dead.induct) (auto split: sum.splits if_splits dest: scanJob_good)

definition page_good :: "Job list option \<Rightarrow> bool" where
  "page_good page \<longleftrightarrow>
     (case page of None \<Rightarrow> False | Some jobs \<Rightarrow> list_all (\<lambda>j. stored_job_ok j \<and> Job_State j = StateDead) jobs)"

lemma ListDead_answer:
  "answered_plainly page_good None (ListDead s repository ctx queue cursor limit db)"
  by (auto simp: ListDead_def page_good_def split: option.splits sum.splits prod.splits dest: scan_dead_good)

text \<open>
  C26. The type contract of the public API, for every table, sound or corrupted, and every
  environment: a call that returns a nil error returns a job that satisfies the complete
  stored-job contract (for \<^verbatim>\<open>ListDead\<close>, only dead ones); a call that returns an error
  returns the zero job (for \<^verbatim>\<open>Enqueue\<close>, created=false; for \<^verbatim>\<open>ListDead\<close>, nil),
  except that an error matching \<^verbatim>\<open>ErrCommitOutcomeUnknown\<close> may carry the well-formed
  job of the transaction for reconciliation. Reads carry nothing with an error.
\<close>

theorem answers_well_formed:
  "job_answer (snd (Claim s repository ctx claim db)) \<and>
   job_answer (snd (Complete s repository ctx lease db)) \<and>
   job_answer (snd (Fail s repository ctx lease failure db)) \<and>
   job_answer (snd (Cancel s repository ctx i db)) \<and>
   job_answer (snd (Redrive s repository ctx i db)) \<and>
   enqueue_answer (snd (Enqueue sha256 s repository ctx request db)) \<and>
   enqueue_answer (snd (EnqueueTx sha256 s repository ctx tx request db)) \<and>
   answered_plainly stored_job_ok zero_Job (Get s repository ctx i db) \<and>
   answered_plainly page_good None (ListDead s repository ctx queue cursor limit db)"
  by (intro conjI Claim_answer lease_answers operator_answers enqueue_answers ListDead_answer)

end
