(* ===== verification/Migrations.thy ===== *)
theory Migrations
  imports Utf8
begin

text \<open>
  \<^verbatim>\<open>migrations.go\<close>: the embedded migration files as a file system rooted at their
  directory. The embedded tree is an argument; \<^verbatim>\<open>fs.Sub\<close> and \<^verbatim>\<open>fs.ValidPath\<close> are those
  of the standard library's \<^verbatim>\<open>io/fs\<close>.
\<close>

section \<open>Paths of io/fs\<close>

text \<open>The elements between slashes.\<close>

fun elements :: "string \<Rightarrow> string list" where
  "elements [] = [[]]"
| "elements (c # cs) =
     (if c = CHR ''/'' then [] # elements cs
      else case elements cs of e # es \<Rightarrow> (c # e) # es | [] \<Rightarrow> [[c]])"

definition ValidPath :: "string \<Rightarrow> bool" where
  "ValidPath name \<longleftrightarrow> ValidString name \<and>
     (name = ''.'' \<or> list_all (\<lambda>e. e \<noteq> '''' \<and> e \<noteq> ''.'' \<and> e \<noteq> ''..'') (elements name))"

text \<open>An \<^verbatim>\<open>fs.PathError\<close> and the method \<^verbatim>\<open>Open\<close> of a file system.\<close>

record PathError =
  pe_Op :: string
  pe_Path :: string
  pe_Err :: string

type_synonym 'f FS = "string \<Rightarrow> PathError + 'f"

text \<open>\<^verbatim>\<open>path.Join(dir, name)\<close> for two valid paths.\<close>

definition join_path :: "string \<Rightarrow> string \<Rightarrow> string" where
  "join_path dir name = (if name = ''.'' then dir else dir @ ''/'' @ name)"

definition shorten :: "string \<Rightarrow> string \<Rightarrow> string option" where
  "shorten dir name =
     (if name = dir then Some ''.''
      else if length name \<ge> length dir + 2 \<and> name ! length dir = CHR ''/'' \<and> take (length dir) name = dir
      then Some (drop (length dir + 1) name) else None)"

definition fixErr :: "string \<Rightarrow> PathError \<Rightarrow> PathError" where
  "fixErr dir e = (case shorten dir (pe_Path e) of Some short \<Rightarrow> e\<lparr>pe_Path := short\<rparr> | None \<Rightarrow> e)"

definition subFS_Open :: "'f FS \<Rightarrow> string \<Rightarrow> 'f FS" where
  "subFS_Open fsys dir name =
     (if \<not> ValidPath name then Inl \<lparr>pe_Op = ''open'', pe_Path = name, pe_Err = ''invalid argument''\<rparr>
      else map_sum (fixErr dir) id (fsys (join_path dir name)))"

definition fs_Sub :: "'f FS \<Rightarrow> string \<Rightarrow> PathError + 'f FS" where
  "fs_Sub fsys dir =
     (if \<not> ValidPath dir then Inl \<lparr>pe_Op = ''sub'', pe_Path = dir, pe_Err = ''invalid argument''\<rparr>
      else if dir = ''.'' then Inr fsys else Inr (subFS_Open fsys dir))"

section \<open>Migrations\<close>

text \<open>\<^term>\<open>Inl\<close> is the panic with its text.\<close>

definition Migrations :: "'f FS \<Rightarrow> string + 'f FS" where
  "Migrations migrationFiles =
     (case fs_Sub migrationFiles ''migrations'' of
        Inl err \<Rightarrow> Inl (''jobs: embedded migration subtree is missing: '' @
          pe_Op err @ '' '' @ pe_Path err @ '': '' @ pe_Err err)
      | Inr files \<Rightarrow> Inr files)"

lemma ValidPath_migrations: "ValidPath ''migrations''"
proof -
  have "clean_text ''migrations''" by (rule clean_text_ascii) (simp add: ord_def)
  then show ?thesis by (simp add: ValidPath_def clean_text_def)
qed

lemma shorten_join: "name \<noteq> '''' \<Longrightarrow> shorten dir (join_path dir name) = Some name"
  by (cases name) (auto simp: shorten_def join_path_def nth_append)

text \<open>
  \<^verbatim>\<open>Migrations\<close> never panics, whatever is embedded. The file system it returns opens
  exactly the embedded files below \<^verbatim>\<open>migrations/\<close>, under their names without that
  prefix; it reports errors under the name the caller used, and refuses names that are not
  valid paths, so nothing outside the directory can be reached.
\<close>

theorem Migrations_rooted:
  "\<exists>files. Migrations migrationFiles = Inr files \<and>
     (\<forall>name. files name =
        (if \<not> ValidPath name then Inl \<lparr>pe_Op = ''open'', pe_Path = name, pe_Err = ''invalid argument''\<rparr>
         else case migrationFiles (join_path ''migrations'' name) of
           Inr f \<Rightarrow> Inr f
         | Inl e \<Rightarrow> Inl (if pe_Path e = join_path ''migrations'' name then e\<lparr>pe_Path := name\<rparr>
                        else fixErr ''migrations'' e)))"
proof -
  have "name \<noteq> ''''" if "ValidPath name" for name using that by (auto simp: ValidPath_def)
  then have "fixErr ''migrations'' e = e\<lparr>pe_Path := name\<rparr>"
    if "ValidPath name" "pe_Path e = join_path ''migrations'' name" for name e
    using that by (simp add: fixErr_def shorten_join)
  then show ?thesis
    using ValidPath_migrations
    by (auto simp: Migrations_def fs_Sub_def subFS_Open_def split: sum.splits)
qed

end
