(* ===== verification/Spec2Isabelle.thy ===== *)
theory Spec2Isabelle
  imports Progress System Fairness Goroutines Answers Migrations
begin

text \<open>
  Verification of \<^verbatim>\<open>pkg/jobs\<close>, a durable PostgreSQL job queue with at-least-once
  delivery, expiring leases, fencing tokens and bounded retries.

  \<^bold>\<open>The program.\<close> Clients enqueue jobs (\<^verbatim>\<open>enqueue.go\<close>), alone or inside their own
  transaction, under an optional idempotency key. Workers (\<^verbatim>\<open>worker.go\<close>) claim one due
  job at a time, run a handler beside a heartbeat goroutine and acknowledge the attempt;
  claim, heartbeat, completion and failure are \<^verbatim>\<open>lifecycle.go\<close>. Operators read, count,
  list, cancel and redrive (\<^verbatim>\<open>operations.go\<close>). Every mutation is one explicit transaction
  (\<^verbatim>\<open>postgres.go\<close>) over one table (\<^verbatim>\<open>migrations/000001_jobs.sql\<close>), and every row
  read is decoded and checked (\<^verbatim>\<open>rows.go\<close>). Inputs are checked by \<^verbatim>\<open>values.go\<close>,
  delays come from \<^verbatim>\<open>retry.go\<close>, errors from \<^verbatim>\<open>errors.go\<close>.

  \<^bold>\<open>The theories.\<close>
  \<^item> \<open>Prelude\<close>: Go scalars, error sequencing, \<^verbatim>\<open>UPDATE ... WHERE\<close> and
    \<^verbatim>\<open>ORDER BY ... LIMIT\<close> on lists of rows, shared facts.
  \<^item> \<open>GoTime\<close>: \<^verbatim>\<open>time.Time\<close>, \<^verbatim>\<open>isPostgreSQLTimestamp\<close> and \<^verbatim>\<open>timestamptz\<close>;
    the predicate admits exactly the instants the column returns unchanged.
  \<^item> \<open>Types\<close>, \<open>Errors\<close>: the structs, limits and states of \<^verbatim>\<open>types.go\<close>; error trees
    with \<^verbatim>\<open>errors.Is\<close> and \<^verbatim>\<open>errors.As\<close>, \<^verbatim>\<open>Permanent\<close> and the reconciliation
    errors of \<^verbatim>\<open>errors.go\<close>.
  \<^item> \<open>Utf8\<close>, \<open>Values\<close>: the UTF-8 functions the library calls; \<^verbatim>\<open>values.go\<close> whole.
    Each validator is characterised exactly, the fingerprint framing is injective, opaque
    identifiers lose no entropy.
  \<^item> \<open>Retry\<close>: \<^verbatim>\<open>RetryPolicy.Delay\<close>; the loop equals the saturating power of two,
    without overflow.
  \<^item> \<open>Schema\<close>, \<open>Rows\<close>: the table with every constraint; \<^verbatim>\<open>rows.go\<close>. Whatever a row
    holds, only jobs meeting the stored-job contract are returned, and every row the library
    writes (\<open>row_ok\<close>) decodes faithfully.
  \<^item> \<open>Postgres\<close>: \<^verbatim>\<open>nilLike\<close>, \<^verbatim>\<open>NewPostgreSQL\<close>, \<^verbatim>\<open>transact\<close>; atomicity and the
    honest classification of commit failures.
  \<^item> \<open>Table\<close>: the table invariant \<open>db_ok\<close> and the locale \<open>keyed_update\<close>, the contract of
    an update addressed by primary key, interpreted on the five single-row statements.
  \<^item> \<open>Samples\<close>: concrete inputs of the witnesses.
  \<^item> \<open>Enqueue\<close>, \<open>Lifecycle\<close>, \<open>Claiming\<close>, \<open>Operations\<close>: one definition per SQL constant and
    per Go function, and the behaviour of every operation on every branch, stated on the
    columns it writes. What a claim may hand out and in which order is stated a second time,
    without the statement's clauses, as \<open>ready\<close> and \<open>served_before\<close>; \<^verbatim>\<open>EnqueueTx\<close> is shown to
    be \<^verbatim>\<open>Enqueue\<close> in the caller's transaction. The lemmas named
    \<open>..._cases\<close> describe an operation under every environment.
  \<^item> \<open>Machine\<close>: the queue as a machine over public calls. The locale \<open>table_operation\<close> is
    the contract of a mutation and is interpreted on all eight. From it: the invariant of
    every reachable table, the refinement of the life cycle of
    \<^verbatim>\<open>docs/architecture.md\<close>, no lost jobs, lost leases stay lost, at most one
    acknowledgement, exclusive ownership of a live lease, the attempt budget over histories.
  \<^item> \<open>Lines\<close>, \<open>Fairness\<close>: the order in which \<^verbatim>\<open>claimSQL\<close> takes rows up, followed through
    histories. The locale \<open>line\<close> says what it means to stand in line and be served, its extension
    \<open>served_line\<close> that claims serve; no call adds a row ahead, so whoever stands in line is
    served. Interpreted on the jobs to hand out (one per claim: no job starves) and on the jobs
    whose last attempt expired (a hundred per claim: none stays running).
  \<^item> \<open>Worker\<close>, \<open>Service\<close>: \<^verbatim>\<open>worker.go\<close> over any store. A recording store observes what
    an attempt or a run calls. The locale \<open>store_invariant\<close> is a world invariant that every
    call of the \<^verbatim>\<open>Store\<close> interface keeps, \<open>store_contract\<close> adds that confirmed claims are
    within the request; it is interpreted on the PostgreSQL repository with arbitrary
    interference between calls.
  \<^item> \<open>System\<close>: \<open>store_invariant\<close> once more, on the recorded repository: a whole \<^verbatim>\<open>Run\<close> among
    other callers is a history of \<open>Machine\<close>, made of the calls it is observed to make.
  \<^item> \<open>Progress\<close>: a cycle on PostgreSQL end to end. Heartbeats in time carry the lease past any
    number of lease durations while other callers interfere, and the attempt ends with the row
    settled by the handler's result.
  \<^item> \<open>Goroutines\<close>: the two goroutines of \<^verbatim>\<open>runAttempt\<close> as a step relation over their
    channels and contexts. Every interleaving ends in a result of the function \<open>runAttempt\<close>
    for some schedule; the join neither deadlocks nor leaves a goroutine behind. A store call
    and the handler's effect are one step each, at the moment they take effect: a \<^verbatim>\<open>Heartbeat\<close>
    that is still blocked when the handler returns is the step after it, with the answer, an
    error of the canceled context included, as the store's.
  \<^item> \<open>Answers\<close>: the type contract of what the public functions return, on any table and
    under every environment.
  \<^item> \<open>Migrations\<close>: \<^verbatim>\<open>migrations.go\<close> over an arbitrary embedded tree.

  \<^bold>\<open>Modelling decisions.\<close>
  \<^item> PostgreSQL, pgx and the runtime's randomness are outside the repository: everything
    they may do to one call is the argument \<open>script\<close> (errors of begin, of the n-th statement,
    of commit and rollback, whether a failed commit took effect, isolation level, random
    bytes, rows locked by others, what others commit before a second statement reads, how
    many rows arrive before a result set breaks off). SHA-256 is the argument \<open>sha256\<close>; the only facts used are
    the digest size and, for idempotency, that the two inputs at hand do not collide.
  \<^item> \<^verbatim>\<open>clock_timestamp()\<close> is volatile: its value is a function of the position in the
    statement and of the row. \<open>clock_sane\<close> keeps it in the range of the column type, a day
    before its end; nothing is assumed about its order.
  \<^item> A statement is its effect on a list of rows; checks are evaluated on the rows it
    writes. No transaction writes in more than one statement, and a second statement follows
    only a first one that wrote nothing: it reads a later snapshot (\<open>s_later\<close>), so a call is
    one atomic step on the table plus a read. Concurrency appears as the interleaving of these
    steps by any number of callers and, for \<^verbatim>\<open>SKIP LOCKED\<close>, as the set of locked rows.
    A fenced update that waits for a concurrent writer re-evaluates its predicate under Read
    Committed, which is the order in which the model runs the two.
  \<^item> Interval arithmetic on microseconds is exact (the numbers stay far below 2^53), ids
    are hexadecimal so every collation orders them by bytes, \<^verbatim>\<open>%q\<close> is rendered with plain
    quotes, and the infinite timestamps are not values of the model.
  \<^item> \<^verbatim>\<open>Run\<close> may go on for ever: it is a function of a finite list of iterations, each with
    what the context and the scheduler decide there, and returns no error while it is still
    going. The heartbeat goroutine is a function of the list of its select choices, split at
    the handler's effect. No fuel is used anywhere else; the other loops are structural or
    have a measure.
  \<^item> Field names carry the name of their struct (\<open>Job_State\<close>), the method \<^verbatim>\<open>Counts\<close> is
    \<open>Counts_op\<close>, and the text scanner's \<^verbatim>\<open>ScanBytes\<close> is \<open>ScanText\<close>.

  \<^bold>\<open>Not modelled.\<close> The wire protocol of the driver below the formats it is asked for;
  the rollback timeout, the ticker period and copying of slices, which have no observable
  value here; a handler that ends its goroutine with \<^verbatim>\<open>runtime.Goexit\<close> is a step of
  \<open>Goroutines\<close> only, because \<^verbatim>\<open>Run\<close> then never returns; the non-unique indexes, which only
  serve performance. \<^verbatim>\<open>doc.go\<close> is a comment.
\<close>

end
